theory Spec2Isabelle
  imports Main
begin

section \<open>The honeyalb command: data\<close>

text \<open>
  The development embeds \<^verbatim>\<open>cmd/honeyalb/main.go\<close>. The command talks to the outside
  world (flag parser, file system, the load-balancer API, the state backends, the publisher,
  the logger, two channels), so every function of the source becomes a function from a
  \<open>World\<close>, which fixes what the outside answers, to the list of effects the function
  performs, in order, and the way it ends.
\<close>

text \<open>The fields of \<^verbatim>\<open>options.Options\<close> that the command reads.\<close>

record Options =
  WriteKey :: string
  BackfillHr :: int
  HighAvail :: bool
  StateDir :: string
  Version :: bool
  Debug :: bool
  Dataset :: string

text \<open>
  The parts of the API responses that the command reads. The SDK hands every string out
  as a pointer; \<open>None\<close> is the nil pointer, and dereferencing it panics.
\<close>

record LoadBalancer =
  LoadBalancerName :: "string option"
  LoadBalancerArn :: "string option"

record LoadBalancerAttribute =
  Key :: "string option"
  Value :: "string option"

text \<open>
  Modelled from the spec: the declaration of \<^verbatim>\<open>state.DownloadedObject\<close> is not part of
  the source file; the fields are the ones the data model of the specification lists
  (resource id, object key, local content handle, discovered timestamp).
\<close>

record DownloadedObject =
  ResourceID :: string
  ObjectKey :: string
  Content :: string
  Discovered :: int

datatype error =
    ServiceError string
  | ErrorsNew string
  | SubcommandNotRecognized string

text \<open>
  \<open>ServiceError\<close> is an error value handed back by a collaborator (flag parser, API,
  state backend, publisher), \<open>ErrorsNew m\<close> is \<^verbatim>\<open>errors.New(m)\<close>, and
  \<open>SubcommandNotRecognized a\<close> is \<^verbatim>\<open>fmt.Errorf("Subcommand %q not recognized", a)\<close>.
\<close>

datatype Stater =
    DynamoDBStater int
  | FileStater string string int

datatype level = DebugLevel | InfoLevel | ErrorLevel | FatalLevel

datatype field =
    FStr string string
  | FInt string int
  | FObj string DownloadedObject
  | FErr string error

text \<open>
  The effects, one constructor per kind of call in the source. \<open>Log l fs m\<close> is a logrus
  call at level \<open>l\<close> with fields \<open>fs\<close> and message \<open>m\<close>; \<open>LogErr l e\<close> is a logrus call
  whose message is the error \<open>e\<close>; \<open>StderrError e\<close> is the line
  \<^verbatim>\<open>fmt.Fprintln(os.Stderr, "Error: ", err)\<close>; \<open>StderrAccessLogs id\<close> is the
  \<^verbatim>\<open>Access logs are not configured for ALB %q ...\<close> text written to standard error;
  \<open>GoDownload st bucket prefix id h\<close> is the goroutine
  \<^verbatim>\<open>go downloader.Download(downloadsCh)\<close> started for the load balancer \<open>id\<close>.
\<close>

datatype event =
    Log level "field list" string
  | LogErr level error
  | Stdout string
  | Stderr string
  | StderrError error
  | StderrAccessLogs string
  | SetLevel level
  | DescribeLoadBalancers "string list"
  | DescribeLoadBalancerAttributes "string option"
  | NewDynamoDBStater int
  | NewFileStater string string int
  | NewHoneycombPublisher Stater
  | GoDownload Stater string string string int
  | SignalNotify
  | Publish DownloadedObject

text \<open>
  How a function ends: it returns a value, it leaves the process through \<^verbatim>\<open>os.Exit\<close>
  (directly, or through \<^verbatim>\<open>logrus.Fatal\<close>, which logs and then calls \<^verbatim>\<open>os.Exit(1)\<close>),
  it panics, or it is still blocked receiving from a channel when the observation ends.
\<close>

datatype 'a res = Ret 'a | Exit int | Panic | Blocked

datatype stat_result = StatOk | StatNotExist | StatOtherError

text \<open>
  What arrives while the publisher loop runs: an object on \<^verbatim>\<open>downloadsCh\<close>, or the
  interrupt on \<^verbatim>\<open>signalCh\<close> that wakes the goroutine of the signal handler.
\<close>

datatype arrival = Download DownloadedObject | Interrupt

text \<open>
  The outside world. \<open>newSession\<close> is the error, if any, of
  \<^verbatim>\<open>session.NewSessionWithOptions\<close>; \<open>osStat\<close> is \<^verbatim>\<open>os.Stat\<close> followed by
  \<^verbatim>\<open>os.IsNotExist\<close>; \<open>describeLoadBalancers names\<close> is the API call with the filter
  \<open>names\<close> (none for the listing of all load balancers); \<open>publish n d\<close> is what
  \<^verbatim>\<open>defaultPublisher.Publish(d)\<close> returns when it is the call number \<open>n\<close> of the run.
  \<open>DynamoTableName\<close> and \<open>AWSElasticLoadBalancingV2\<close> are constants of packages outside
  the source file.
\<close>

record World =
  osArgs0 :: string
  BuildID :: string
  flagParse :: "error + (Options \<times> string list)"
  newSession :: "error option"
  osStat :: "string \<Rightarrow> stat_result"
  describeLoadBalancers :: "string list \<Rightarrow> error + LoadBalancer list"
  describeLoadBalancerAttributes :: "string option \<Rightarrow> error + LoadBalancerAttribute list"
  newDynamoDBStater :: "int \<Rightarrow> error option"
  DynamoTableName :: string
  AWSElasticLoadBalancingV2 :: string
  publish :: "nat \<Rightarrow> DownloadedObject \<Rightarrow> error option"
  arrivals :: "arrival list"

type_synonym ingestFn = "World \<Rightarrow> Options \<Rightarrow> string \<Rightarrow> Stater \<Rightarrow> event list \<times> error option res"

section \<open>Sequencing\<close>

text \<open>
  \<open>andThen m k\<close> runs \<open>m\<close> and, when \<open>m\<close> returns, runs \<open>k\<close> on what it returned; an exit, a
  panic or a blocked receive in \<open>m\<close> ends the whole. \<open>emit\<close> performs one effect, and
  \<open>fatal\<close> is \<^verbatim>\<open>logrus.Fatal\<close>: the entry is logged and the process exits with status 1.
\<close>

definition andThen :: "event list \<times> 'a res \<Rightarrow> ('a \<Rightarrow> event list \<times> 'b res) \<Rightarrow> event list \<times> 'b res" where
  "andThen m k =
     (case snd m of
        Ret x \<Rightarrow> (fst m @ fst (k x), snd (k x))
      | Exit c \<Rightarrow> (fst m, Exit c)
      | Panic \<Rightarrow> (fst m, Panic)
      | Blocked \<Rightarrow> (fst m, Blocked))"

definition emit :: "event \<Rightarrow> event list \<times> unit res" where
  "emit e = ([e], Ret ())"

definition fatal :: "field list \<Rightarrow> string \<Rightarrow> event list \<times> 'a res" where
  "fatal fs m = ([Log FatalLevel fs m], Exit 1)"

definition fatalErr :: "error \<Rightarrow> event list \<times> 'a res" where
  "fatalErr err = ([LogErr FatalLevel err], Exit 1)"

section \<open>ingestALB\<close>

record scan =
  enabled :: bool
  bucketName :: string
  bucketPrefix :: string

text \<open>
  One round of the loop over the attributes (lines 213 to 223): three tests in a row, each
  dereferencing the key, and the value where the test needs it.
\<close>

definition scanStep :: "LoadBalancerAttribute \<Rightarrow> scan \<Rightarrow> scan option" where
  "scanStep element s =
     (case Key element of
        None \<Rightarrow> None
      | Some k \<Rightarrow>
          Option.bind
            (if k = ''access_logs.s3.enabled''
             then (case Value element of
                     None \<Rightarrow> None
                   | Some v \<Rightarrow> Some (if v = ''true'' then s\<lparr>enabled := True\<rparr> else s))
             else Some s)
            (\<lambda>s1. Option.bind
               (if k = ''access_logs.s3.bucket''
                then (case Value element of
                        None \<Rightarrow> None
                      | Some v \<Rightarrow> Some (s1\<lparr>bucketName := v\<rparr>))
                else Some s1)
               (\<lambda>s2. if k = ''access_logs.s3.prefix''
                     then (case Value element of
                             None \<Rightarrow> None
                           | Some v \<Rightarrow> Some (s2\<lparr>bucketPrefix := v\<rparr>))
                     else Some s2)))"

fun scanAttributes :: "LoadBalancerAttribute list \<Rightarrow> scan \<Rightarrow> scan option" where
  "scanAttributes [] s = Some s"
| "scanAttributes (element # rest) s =
     (case scanStep element s of
        None \<Rightarrow> None
      | Some s' \<Rightarrow> scanAttributes rest s')"

definition scanStart :: scan where
  "scanStart = \<lparr>enabled = False, bucketName = [], bucketPrefix = []\<rparr>"

text \<open>The heart that ends the message of line 237, in UTF-8.\<close>

definition heart :: string where
  "heart = [CHR 0xE2, CHR 0x99, CHR 0xA5]"

text \<open>
  Lines 188 to 247. The two API calls end the process through \<^verbatim>\<open>logrus.Fatal\<close> when they
  fail; \<^verbatim>\<open>LoadBalancers[0]\<close> panics on an empty answer.
\<close>

definition ingestALB :: ingestFn where
  "ingestALB w opt ident stater =
     andThen (emit (DescribeLoadBalancers [ident])) (\<lambda>_.
       case describeLoadBalancers w [ident] of
         Inl err \<Rightarrow> fatalErr err
       | Inr [] \<Rightarrow> ([], Panic)
       | Inr (lb # _) \<Rightarrow>
           andThen (emit (DescribeLoadBalancerAttributes (LoadBalancerArn lb))) (\<lambda>_.
             case describeLoadBalancerAttributes w (LoadBalancerArn lb) of
               Inl err \<Rightarrow> fatalErr err
             | Inr attrs \<Rightarrow>
                 (case scanAttributes attrs scanStart of
                    None \<Rightarrow> ([], Panic)
                  | Some s \<Rightarrow>
                      if \<not> enabled s
                      then ([StderrAccessLogs ident],
                            Ret (Some (ErrorsNew ''access logs no enabled'')))
                      else ([Log InfoLevel
                               [FStr ''bucket'' (bucketName s), FStr ''lbName'' ident]
                               (''Access logs are enabled for ALB '' @ heart),
                             GoDownload stater (bucketName s) (bucketPrefix s) ident
                               (BackfillHr opt)],
                            Ret None))))"

section \<open>cmdALB\<close>

text \<open>The \<^verbatim>\<open>ls\<close> subcommand, lines 58 to 62.\<close>

fun printNames :: "LoadBalancer list \<Rightarrow> event list \<times> error option res" where
  "printNames [] = ([], Ret None)"
| "printNames (lb # lbs) =
     (case LoadBalancerName lb of
        None \<Rightarrow> ([], Panic)
      | Some n \<Rightarrow> andThen (emit (Stdout (n @ [CHR 0x0A]))) (\<lambda>_. printNames lbs))"

text \<open>Lines 74 to 78: every listed load balancer when no name is given.\<close>

fun allNames :: "LoadBalancer list \<Rightarrow> string list option" where
  "allNames [] = Some []"
| "allNames (lb # lbs) =
     (case LoadBalancerName lb of
        None \<Rightarrow> None
      | Some n \<Rightarrow> map_option ((#) n) (allNames lbs))"

text \<open>Lines 80 to 95: the choice of the state backend.\<close>

definition highAvailMessage :: string where
  "highAvailMessage =
     ''--highavail requires an existing DynamoDB table named appropriately, please refer to the README.''"

definition newStater :: "World \<Rightarrow> Options \<Rightarrow> event list \<times> Stater res" where
  "newStater w opt =
     (if HighAvail opt
      then andThen (emit (NewDynamoDBStater (BackfillHr opt))) (\<lambda>_.
             case newDynamoDBStater w (BackfillHr opt) of
               Some err \<Rightarrow> fatal [FStr ''tableName'' (DynamoTableName w)] highAvailMessage
             | None \<Rightarrow>
                 ([Log InfoLevel []
                     ''State tracking with high availability enabled - using DynamoDB''],
                  Ret (DynamoDBStater (BackfillHr opt))))
      else ([NewFileStater (StateDir opt) (AWSElasticLoadBalancingV2 w) (BackfillHr opt),
             Log InfoLevel [] ''State tracking enabled - using local file system.''],
            Ret (FileStater (StateDir opt) (AWSElasticLoadBalancingV2 w) (BackfillHr opt))))"

text \<open>
  Lines 102 to 119, the loop over the load balancers. \<open>named\<close> is the test
  \<^verbatim>\<open>len(args[1:]) > 0\<close>. The call site names the set-up function \<^verbatim>\<open>ingestDist\<close>, which
  the source file does not define; it is a parameter here, and \<open>ingestALB\<close> is the function
  of that signature that the file does define.
\<close>

definition attempting :: "string \<Rightarrow> event" where
  "attempting lbName = Log InfoLevel [FStr ''lbName'' lbName] ''Attempting to ingest ALB''"

definition couldNotIngest :: "string \<Rightarrow> event" where
  "couldNotIngest lbName =
     Log ErrorLevel [FStr ''id'' lbName]
       ''Could not ingest data from a load balancer! See logs for more information.''"

fun ingestAll :: "ingestFn \<Rightarrow> World \<Rightarrow> Options \<Rightarrow> Stater \<Rightarrow> bool \<Rightarrow> string list
                  \<Rightarrow> event list \<times> unit res" where
  "ingestAll ingestDist w opt stater named [] = ([], Ret ())"
| "ingestAll ingestDist w opt stater named (lbName # rest) =
     andThen (emit (attempting lbName)) (\<lambda>_.
     andThen (ingestDist w opt lbName stater) (\<lambda>err.
     andThen (case err of
                None \<Rightarrow> ([], Ret ())
              | Some e \<Rightarrow>
                  if named then fatal [] ''Exiting due to fatal error.''
                  else emit (couldNotIngest lbName)) (\<lambda>_.
     ingestAll ingestDist w opt stater named rest)))"

text \<open>
  Lines 121 to 137: the handler of the interrupt and the publisher loop, run against what
  arrives. \<open>n\<close> counts the calls of \<^verbatim>\<open>Publish\<close> made so far. The loop has no exit of its
  own: when nothing more arrives it is blocked on the receive. The handler runs in a
  goroutine of its own; the interrupt is taken here between two rounds of the loop.
\<close>

definition cannotPublish :: "DownloadedObject \<Rightarrow> error \<Rightarrow> event" where
  "cannotPublish download err =
     Log ErrorLevel [FObj ''object'' download, FErr ''error'' err]
       ''Cannot properly publish downloaded object''"

fun publishLoop :: "World \<Rightarrow> nat \<Rightarrow> arrival list \<Rightarrow> event list \<times> error option res" where
  "publishLoop w n [] = ([], Blocked)"
| "publishLoop w n (Interrupt # rest) = fatal [] ''Exiting due to interrupt.''"
| "publishLoop w n (Download download # rest) =
     andThen (emit (Publish download)) (\<lambda>_.
     andThen (case publish w n download of
                None \<Rightarrow> ([], Ret ())
              | Some err \<Rightarrow> emit (cannotPublish download err)) (\<lambda>_.
     publishLoop w (Suc n) rest))"

definition writeKeyMessage :: string where
  "writeKeyMessage =
     ''--writekey must be set to the proper write key for the Honeycomb team.'' @ [CHR 0x0A] @
     ''Your write key is available at https://ui.honeycomb.io/account''"

definition backfillMessage :: string where
  "backfillMessage = ''--backfill requires an hour input between 1 and 168''"

text \<open>
  Lines 64 to 137: the \<^verbatim>\<open>ingest\<close> subcommand. The field of the debug entry is the
  \<^verbatim>\<open>time.Duration\<close> of the window, in nanoseconds.
\<close>

definition cmdIngest :: "ingestFn \<Rightarrow> World \<Rightarrow> Options \<Rightarrow> string list \<Rightarrow> LoadBalancer list
                         \<Rightarrow> event list \<times> error option res" where
  "cmdIngest ingestDist w opt rest lbs =
     (if WriteKey opt = []
      then fatal [] writeKeyMessage
      else
        (case (if rest = [] then allNames lbs else Some rest) of
           None \<Rightarrow> ([], Panic)
         | Some lbNames \<Rightarrow>
             if BackfillHr opt < 1 \<or> BackfillHr opt > 168
             then fatal [FInt ''hours'' (BackfillHr opt)] backfillMessage
             else
               andThen (newStater w opt) (\<lambda>stater.
               andThen (emit (Log DebugLevel
                                [FInt ''hours'' (BackfillHr opt * 3600000000000)]
                                ''Backfill will be'')) (\<lambda>_.
               andThen (emit (NewHoneycombPublisher stater)) (\<lambda>_.
               andThen (ingestAll ingestDist w opt stater (rest \<noteq> []) lbNames) (\<lambda>_.
               andThen (emit SignalNotify) (\<lambda>_.
               publishLoop w 0 (arrivals w))))))))"

text \<open>
  Lines 40 to 142. \<^verbatim>\<open>session.Must\<close> panics when the session cannot be created, and
  line 141 indexes \<^verbatim>\<open>args[0]\<close>, which panics when there is none.
\<close>

definition cmdALB :: "ingestFn \<Rightarrow> World \<Rightarrow> Options \<Rightarrow> string list \<Rightarrow> event list \<times> error option res" where
  "cmdALB ingestDist w opt args =
     (case newSession w of
        Some err \<Rightarrow> ([], Panic)
      | None \<Rightarrow>
          andThen (emit (DescribeLoadBalancers [])) (\<lambda>_.
            case describeLoadBalancers w [] of
              Inl err \<Rightarrow> ([], Ret (Some err))
            | Inr lbs \<Rightarrow>
                (case args of
                   [] \<Rightarrow> ([], Panic)
                 | sub # rest \<Rightarrow>
                     if sub = ''ls'' \<or> sub = ''list'' then printNames lbs
                     else if sub = ''ingest'' then cmdIngest ingestDist w opt rest lbs
                     else ([], Ret (Some (SubcommandNotRecognized sub))))))"

section \<open>main\<close>

definition versionStr :: "World \<Rightarrow> string" where
  "versionStr w = (if BuildID w = [] then ''dev'' else BuildID w)"

definition usage :: "World \<Rightarrow> string" where
  "usage w =
     ''Usage: '' @ osArgs0 w @ '' [--flags] [ls|ingest] [ALB names...]'' @ [CHR 0x0A, CHR 0x0A] @
     ''Use '' @ [CHR 0x27] @ osArgs0 w @ '' --help'' @ [CHR 0x27] @ '' to see available flags.'' @
     [CHR 0x0A]"

text \<open>Lines 162 to 164: the default data set name is rewritten.\<close>

definition fixDataset :: "Options \<Rightarrow> Options" where
  "fixDataset opt0 =
     (if Dataset opt0 = ''aws-$SERVICE-access''
      then opt0\<lparr>Dataset := ''aws-elb-access''\<rparr> else opt0)"

text \<open>Lines 151 to 160: what every run does after the flags have been parsed.\<close>

definition startTrace :: "World \<Rightarrow> Options \<Rightarrow> event list" where
  "startTrace w opt0 =
     (if Debug opt0 then [SetLevel DebugLevel] else []) @
     [Log DebugLevel [FStr ''version'' (BuildID w)] ''Program starting'']"

definition stateDirMessage :: string where
  "stateDirMessage = ''Specified state directory does not exist''"

text \<open>
  Lines 144 to 186. When \<^verbatim>\<open>cmdALB\<close> returns an error, it is printed and the process
  exits with status 1; when it returns none, \<^verbatim>\<open>main\<close> returns.
\<close>

definition main :: "ingestFn \<Rightarrow> World \<Rightarrow> event list \<times> unit res" where
  "main ingestDist w =
     (case flagParse w of
        Inl err \<Rightarrow> ([], Exit 1)
      | Inr (opt0, args) \<Rightarrow>
          andThen (startTrace w opt0, Ret (fixDataset opt0)) (\<lambda>opt.
            if osStat w (StateDir opt) = StatNotExist
            then fatal [FStr ''dir'' (StateDir opt)] stateDirMessage
            else if Version opt
            then ([Stdout (''honeyalb version '' @ versionStr w @ [CHR 0x0A])], Exit 0)
            else if args = []
            then ([Stderr (usage w)], Exit 1)
            else andThen (cmdALB ingestDist w opt args) (\<lambda>err.
                   case err of
                     Some e \<Rightarrow> ([StderrError e], Exit 1)
                   | None \<Rightarrow> ([], Ret ()))))"

text \<open>
  The exit status of the process: \<open>0\<close> when \<^verbatim>\<open>main\<close> returns, the argument of
  \<^verbatim>\<open>os.Exit\<close> otherwise, \<open>2\<close> after a panic; a blocked process has none yet.
\<close>

fun exitCode :: "unit res \<Rightarrow> int option" where
  "exitCode (Ret u) = Some 0"
| "exitCode (Exit c) = Some c"
| "exitCode Panic = Some 2"
| "exitCode Blocked = None"

section \<open>Observations on a run\<close>

text \<open>The effects that create a state backend.\<close>

fun ledgerEvent :: "event \<Rightarrow> bool" where
  "ledgerEvent (NewDynamoDBStater h) = True"
| "ledgerEvent (NewFileStater d s h) = True"
| "ledgerEvent _ = False"

text \<open>
  The effects that belong to the ingestion proper: the publisher, the per-resource set-up
  (its announcement, its two API calls, its downloader), the signal handler and the
  publisher loop.
\<close>

fun ingestionEvent :: "event \<Rightarrow> bool" where
  "ingestionEvent (NewHoneycombPublisher st) = True"
| "ingestionEvent (GoDownload st b p i h) = True"
| "ingestionEvent SignalNotify = True"
| "ingestionEvent (Publish d) = True"
| "ingestionEvent (DescribeLoadBalancerAttributes a) = True"
| "ingestionEvent (DescribeLoadBalancers names) = (names \<noteq> [])"
| "ingestionEvent (Log l fs m) = (m = ''Attempting to ingest ALB'')"
| "ingestionEvent _ = False"

fun isFatal :: "event \<Rightarrow> bool" where
  "isFatal (Log l fs m) = (l = FatalLevel)"
| "isFatal (LogErr l e) = (l = FatalLevel)"
| "isFatal _ = False"

fun startsDownloader :: "string \<Rightarrow> event \<Rightarrow> bool" where
  "startsDownloader ident (GoDownload st b p i h) = (i = ident)"
| "startsDownloader ident _ = False"

fun publishes :: "string \<Rightarrow> event \<Rightarrow> bool" where
  "publishes k (Publish d) = (ObjectKey d = k)"
| "publishes k _ = False"

definition publishAttempts :: "event list \<Rightarrow> string \<Rightarrow> nat" where
  "publishAttempts tr k = length (filter (publishes k) tr)"

text \<open>Access logging is switched on by an attribute \<^verbatim>\<open>access_logs.s3.enabled\<close> of value \<^verbatim>\<open>true\<close>.\<close>

definition accessLogsEnabled :: "LoadBalancerAttribute list \<Rightarrow> bool" where
  "accessLogsEnabled attrs =
     list_ex (\<lambda>a. Key a = Some ''access_logs.s3.enabled'' \<and> Value a = Some ''true'') attrs"

definition wellFormed :: "LoadBalancerAttribute list \<Rightarrow> bool" where
  "wellFormed attrs = list_all (\<lambda>a. Key a \<noteq> None \<and> Value a \<noteq> None) attrs"




text \<open>A run in which a fatal entry is always followed by the exit with status 1.\<close>

definition fatalExits :: "event list \<times> 'a res \<Rightarrow> bool" where
  "fatalExits m = (list_ex isFatal (fst m) \<longrightarrow> snd m = Exit 1)"

text \<open>A run that is not left waiting, and that exits with status 1 if it exits.\<close>

definition endsWithOne :: "event list \<times> 'a res \<Rightarrow> bool" where
  "endsWithOne m = (case snd m of Ret x \<Rightarrow> True | Exit c \<Rightarrow> c = 1 | Panic \<Rightarrow> True | Blocked \<Rightarrow> False)"

text \<open>
  A run, as a function of what arrives, that either ends before the publisher loop, in the
  same way whatever arrives, or does the same things up to the loop and then runs the loop.
\<close>

definition loopShape :: "World \<Rightarrow> (arrival list \<Rightarrow> event list \<times> 'a res) \<Rightarrow> bool" where
  "loopShape w g =
     (\<exists>pre early. early \<noteq> Some Blocked \<and>
        (\<forall>a. g a = (case early of
                       Some r \<Rightarrow> (pre, r)
                     | None \<Rightarrow> (pre @ fst (publishLoop w 0 a),
                                if Interrupt \<in> set a then Exit 1 else Blocked))))"

section \<open>The resource monitor and the ledger\<close>

text \<open>
  Modelled from the spec: the ledger (\<^verbatim>\<open>state.Stater\<close> and its two implementations) and
  the downloader behind \<^verbatim>\<open>downloader.Download\<close> are not part of the source file, which
  only constructs and starts them. The definitions of this section follow sections 3, 4.1
  and 4.2 of the specification.
\<close>

text \<open>
  Modelled from the spec: a ledger entry is an object key with the time it was processed;
  the ledger is the list of the entries committed so far.
\<close>

type_synonym Ledger = "(string \<times> int) list"

text \<open>Modelled from the spec: the two interchangeable implementations of the ledger.\<close>

datatype variant = SingleNode | Distributed

text \<open>
  Modelled from the spec: what the collaborators answer during one poll, \<open>fetch\<close> for the
  download of an object and \<open>ledgerWrite\<close> for the durable write of an entry.
\<close>

record Poll =
  fetch :: "string \<Rightarrow> error + string"
  ledgerWrite :: "string \<Rightarrow> error option"

text \<open>Modelled from the spec: \<^verbatim>\<open>Seen(key) -> bool\<close> of the ledger contract.\<close>

definition Seen :: "Ledger \<Rightarrow> string \<Rightarrow> bool" where
  "Seen ledger k = (k \<in> set (map fst ledger))"

text \<open>
  Modelled from the spec: \<^verbatim>\<open>MarkProcessed(key) -> error\<close>. The single-node variant is a
  simple durable write; the distributed variant is a conditional write (insert if absent)
  that reports a conflict for a key already committed. No entry is ever overwritten.
\<close>

definition MarkProcessed :: "variant \<Rightarrow> Poll \<Rightarrow> int \<Rightarrow> string \<Rightarrow> Ledger \<Rightarrow> error + Ledger" where
  "MarkProcessed v p now k ledger =
     (if v = Distributed \<and> Seen ledger k then Inl (ErrorsNew ''conflict'')
      else (case ledgerWrite p k of
              Some err \<Rightarrow> Inl err
            | None \<Rightarrow> Inr (if Seen ledger k then ledger else ledger @ [(k, now)])))"

text \<open>
  Modelled from the spec: the objects whose timestamps fall within
  \<^verbatim>\<open>[now - BackfillWindow, now]\<close>; the window is in hours, the timestamps in seconds.
\<close>

definition inWindow :: "int \<Rightarrow> int \<Rightarrow> int \<Rightarrow> bool" where
  "inWindow h now ts = (now - h * 3600 \<le> ts \<and> ts \<le> now)"

text \<open>
  Modelled from the spec: the set difference of the listed objects of the window against
  the ledger, that is the new keys, each once.
\<close>

definition candidates :: "int \<Rightarrow> int \<Rightarrow> (string \<times> int) list \<Rightarrow> Ledger \<Rightarrow> string list" where
  "candidates h now listing ledger =
     remdups (map fst (filter (\<lambda>(k, ts). inWindow h now ts \<and> \<not> Seen ledger k) listing))"

text \<open>
  Modelled from the spec: for each new key, download the content, call
  \<^verbatim>\<open>MarkProcessed\<close> and, only if the mark succeeds, emit a \<^verbatim>\<open>DownloadedObject\<close>.
  The result is the ledger afterwards and the objects emitted, in order.
\<close>

fun monitorKeys :: "variant \<Rightarrow> Poll \<Rightarrow> string \<Rightarrow> int \<Rightarrow> string list \<Rightarrow> Ledger
                    \<Rightarrow> Ledger \<times> DownloadedObject list" where
  "monitorKeys v p resource now [] ledger = (ledger, [])"
| "monitorKeys v p resource now (k # ks) ledger =
     (case fetch p k of
        Inl err \<Rightarrow> monitorKeys v p resource now ks ledger
      | Inr content \<Rightarrow>
          (case MarkProcessed v p now k ledger of
             Inl err \<Rightarrow> monitorKeys v p resource now ks ledger
           | Inr ledger' \<Rightarrow>
               (let (ledger'', out) = monitorKeys v p resource now ks ledger'
                in (ledger'',
                    \<lparr>ResourceID = resource, ObjectKey = k, Content = content,
                     Discovered = now\<rparr> # out))))"

text \<open>Modelled from the spec: one discover, download and mark pass over the window.\<close>

definition pollOnce :: "variant \<Rightarrow> Poll \<Rightarrow> string \<Rightarrow> int \<Rightarrow> int \<Rightarrow> (string \<times> int) list \<Rightarrow> Ledger
                        \<Rightarrow> Ledger \<times> DownloadedObject list" where
  "pollOnce v p resource h now listing ledger =
     monitorKeys v p resource now (candidates h now listing ledger) ledger"

text \<open>
  Modelled from the spec: the pass run twice over the same window (same listing, same
  \<open>now\<close>), the second time on the ledger the first one left; the collaborators may answer
  differently the second time.
\<close>

definition pollTwice :: "variant \<Rightarrow> Poll \<Rightarrow> Poll \<Rightarrow> string \<Rightarrow> int \<Rightarrow> int \<Rightarrow> (string \<times> int) list
                         \<Rightarrow> Ledger \<Rightarrow> Ledger \<times> DownloadedObject list" where
  "pollTwice v p1 p2 resource h now listing ledger =
     (let (ledger1, out1) = pollOnce v p1 resource h now listing ledger;
          (ledger2, out2) = pollOnce v p2 resource h now listing ledger1
      in (ledger2, out1 @ out2))"

text \<open>Modelled from the spec: a key is handled by a poll when its download and its mark succeed.\<close>

definition succeeds :: "Poll \<Rightarrow> string \<Rightarrow> bool" where
  "succeeds p k = ((case fetch p k of Inl err \<Rightarrow> False | Inr c \<Rightarrow> True) \<and> ledgerWrite p k = None)"

section \<open>Example runs\<close>

text \<open>
  A small account used to run the definitions: two load balancers, \<open>web\<close> without access
  logs and \<open>api\<close> with access logs, an existing state directory, no DynamoDB table, and a
  publisher that fails on the object \<open>bad\<close>.
\<close>

definition exampleOptions :: Options where
  "exampleOptions =
     \<lparr>WriteKey = ''wk'', BackfillHr = 24, HighAvail = False, StateDir = ''/var/lib/honeyalb'',
      Version = False, Debug = False, Dataset = ''aws-$SERVICE-access''\<rparr>"

definition lbWeb :: LoadBalancer where
  "lbWeb = \<lparr>LoadBalancerName = Some ''web'', LoadBalancerArn = Some ''arn:web''\<rparr>"

definition lbApi :: LoadBalancer where
  "lbApi = \<lparr>LoadBalancerName = Some ''api'', LoadBalancerArn = Some ''arn:api''\<rparr>"

definition attrsWeb :: "LoadBalancerAttribute list" where
  "attrsWeb =
     [\<lparr>Key = Some ''access_logs.s3.enabled'', Value = Some ''false''\<rparr>,
      \<lparr>Key = Some ''idle_timeout.timeout_seconds'', Value = Some ''60''\<rparr>]"

definition attrsApi :: "LoadBalancerAttribute list" where
  "attrsApi =
     [\<lparr>Key = Some ''access_logs.s3.enabled'', Value = Some ''true''\<rparr>,
      \<lparr>Key = Some ''access_logs.s3.bucket'', Value = Some ''logs''\<rparr>,
      \<lparr>Key = Some ''access_logs.s3.prefix'', Value = Some ''api''\<rparr>]"

definition exampleDescribe :: "string list \<Rightarrow> error + LoadBalancer list" where
  "exampleDescribe names =
     (if names = [] then Inr [lbWeb, lbApi]
      else if names = [''web''] then Inr [lbWeb]
      else if names = [''api''] then Inr [lbApi]
      else Inl (ServiceError ''LoadBalancerNotFound''))"

definition exampleAttributes :: "string option \<Rightarrow> error + LoadBalancerAttribute list" where
  "exampleAttributes arn =
     (if arn = Some ''arn:web'' then Inr attrsWeb
      else if arn = Some ''arn:api'' then Inr attrsApi
      else Inl (ServiceError ''LoadBalancerNotFound''))"

definition objGood :: DownloadedObject where
  "objGood = \<lparr>ResourceID = ''api'', ObjectKey = ''good'', Content = ''/tmp/good'', Discovered = 7\<rparr>"

definition objBad :: DownloadedObject where
  "objBad = \<lparr>ResourceID = ''api'', ObjectKey = ''bad'', Content = ''/tmp/bad'', Discovered = 5\<rparr>"

definition exampleWorld :: "Options \<Rightarrow> string list \<Rightarrow> arrival list \<Rightarrow> World" where
  "exampleWorld opt args arrs =
     \<lparr>osArgs0 = ''honeyalb'', BuildID = [],
      flagParse = Inr (opt, args),
      newSession = None,
      osStat = (\<lambda>dir. if dir = ''/var/lib/honeyalb'' then StatOk else StatNotExist),
      describeLoadBalancers = exampleDescribe,
      describeLoadBalancerAttributes = exampleAttributes,
      newDynamoDBStater = (\<lambda>h. Some (ServiceError ''ResourceNotFoundException'')),
      DynamoTableName = ''HoneyAWSAccessLogBuckets'',
      AWSElasticLoadBalancingV2 = ''elasticloadbalancingv2'',
      publish = (\<lambda>n d. if ObjectKey d = ''bad'' then Some (ServiceError ''parse'') else None),
      arrivals = arrs\<rparr>"

text \<open>A listing that still shows a load balancer, \<open>gone\<close>, that can no longer be looked up.\<close>

definition lbGone :: LoadBalancer where
  "lbGone = \<lparr>LoadBalancerName = Some ''gone'', LoadBalancerArn = Some ''arn:gone''\<rparr>"

definition goneDescribe :: "string list \<Rightarrow> error + LoadBalancer list" where
  "goneDescribe names = (if names = [] then Inr [lbGone, lbApi] else exampleDescribe names)"

text \<open>
  The scenario of the specification for the window: a backfill of 24 hours, an empty
  ledger, one object two hours old and one thirty hours old (listed twice), with
  collaborators that always succeed.
\<close>

definition exampleNow :: int where
  "exampleNow = 108000"

definition exampleListing :: "(string \<times> int) list" where
  "exampleListing = [(''recent'', 100800), (''old'', 0), (''recent'', 100800)]"

definition okPoll :: Poll where
  "okPoll = \<lparr>fetch = (\<lambda>k. Inr (''content of '' @ k)), ledgerWrite = (\<lambda>k. None)\<rparr>"

section \<open>Sequencing lemmas\<close>

lemma andThen_Ret [simp]: "andThen (t, Ret x) k = (t @ fst (k x), snd (k x))"
  and andThen_Exit [simp]: "andThen (t, Exit c) k = (t, Exit c)"
  and andThen_Panic [simp]: "andThen (t, Panic) k = (t, Panic)"
  and andThen_Blocked [simp]: "andThen (t, Blocked) k = (t, Blocked)"
  by (simp_all add: andThen_def)

lemma andThen_emit [simp]: "andThen (emit e) k = (e # fst (k ()), snd (k ()))"
  by (simp add: emit_def)

lemma andThen_fatal [simp]: "andThen (fatal fs m) k = fatal fs m"
  by (simp add: fatal_def)

lemma snd_andThen_Ret_iff:
  "snd (andThen m k) = Ret x \<longleftrightarrow> (\<exists>y. snd m = Ret y \<and> snd (k y) = Ret x)"
  by (cases "snd m") (auto simp: andThen_def)

lemma snd_andThen:
  "snd (andThen m k) =
     (case snd m of Ret x \<Rightarrow> snd (k x) | Exit c \<Rightarrow> Exit c | Panic \<Rightarrow> Panic | Blocked \<Rightarrow> Blocked)"
  by (cases "snd m") (auto simp: andThen_def)

lemma set_fst_andThen: "set (fst (andThen m k)) \<subseteq> set (fst m) \<union> (\<Union>x. set (fst (k x)))"
  by (cases "snd m") (auto simp: andThen_def)

lemma fst_andThen_prefix: "\<exists>t. fst (andThen m k) = fst m @ t"
  by (cases "snd m") (auto simp: andThen_def)

lemma fst_fatal [simp]: "fst (fatal fs m) = [Log FatalLevel fs m]"
  and snd_fatal [simp]: "snd (fatal fs m) = Exit 1"
  by (simp_all add: fatal_def)

section \<open>The shape of a run\<close>

lemma fixDataset_fields [simp]:
  "WriteKey (fixDataset o0) = WriteKey o0"
  "BackfillHr (fixDataset o0) = BackfillHr o0"
  "HighAvail (fixDataset o0) = HighAvail o0"
  "StateDir (fixDataset o0) = StateDir o0"
  "Version (fixDataset o0) = Version o0"
  "Debug (fixDataset o0) = Debug o0"
  by (simp_all add: fixDataset_def)

lemma startTrace_quiet:
  "e \<in> set (startTrace w opt0) \<Longrightarrow> \<not> ledgerEvent e \<and> \<not> ingestionEvent e \<and> \<not> isFatal e"
  by (auto simp: startTrace_def split: if_splits)

lemma printNames_quiet:
  "e \<in> set (fst (printNames lbs)) \<Longrightarrow> \<not> ledgerEvent e \<and> \<not> ingestionEvent e \<and> \<not> isFatal e"
  by (induction lbs) (auto split: option.splits)

lemma printNames_result:
  "snd (printNames lbs) = (if allNames lbs = None then Panic else Ret None)"
  by (induction lbs) (auto split: option.splits)

lemma publishLoop_not_Ret: "snd (publishLoop w n xs) \<noteq> Ret x"
  by (induction w n xs rule: publishLoop.induct)
     (simp_all add: snd_andThen_Ret_iff)

lemma cmdIngest_not_Ret: "snd (cmdIngest f w opt rest lbs) \<noteq> Ret x"
  unfolding cmdIngest_def
  by (simp add: publishLoop_not_Ret snd_andThen_Ret_iff split: option.splits)

text \<open>A run that gets past the checks of \<open>main\<close> is the start-up followed by \<open>cmdALB\<close>.\<close>

lemma main_cmdALB:
  assumes "flagParse w = Inr (opt0, sub # rest)"
    and "osStat w (StateDir opt0) \<noteq> StatNotExist"
    and "\<not> Version opt0"
  shows "main f w =
           andThen (startTrace w opt0, Ret ()) (\<lambda>_.
           andThen (cmdALB f w (fixDataset opt0) (sub # rest)) (\<lambda>err.
             case err of Some e \<Rightarrow> ([StderrError e], Exit 1) | None \<Rightarrow> ([], Ret ())))"
  using assms by (simp add: main_def)

lemma cmdALB_ingest:
  assumes "newSession w = None \<and> describeLoadBalancers w [] = Inr lbs"
  shows "fst (cmdALB f w opt (''ingest'' # rest)) =
           DescribeLoadBalancers [] # fst (cmdIngest f w opt rest lbs)"
    and "snd (cmdALB f w opt (''ingest'' # rest)) = snd (cmdIngest f w opt rest lbs)"
  using assms by (simp_all add: cmdALB_def)

lemma main_ingest_trace:
  assumes "flagParse w = Inr (opt0, ''ingest'' # rest)"
    and "osStat w (StateDir opt0) \<noteq> StatNotExist"
    and "\<not> Version opt0"
    and "newSession w = None \<and> describeLoadBalancers w [] = Inr lbs"
  shows "fst (main f w) =
           startTrace w opt0 @ DescribeLoadBalancers [] #
           fst (cmdIngest f w (fixDataset opt0) rest lbs)"
proof -
  let ?c = "cmdALB f w (fixDataset opt0) (''ingest'' # rest)"
  have "snd ?c \<noteq> Ret x" for x
    using cmdALB_ingest(2)[OF assms(4)] cmdIngest_not_Ret by metis
  then have "fst (andThen ?c k) = fst ?c" for k :: "error option \<Rightarrow> event list \<times> unit res"
    by (cases "snd ?c") (auto simp: andThen_def)
  then show ?thesis
    using main_cmdALB[OF assms(1-3)] cmdALB_ingest(1)[OF assms(4)] by simp
qed

lemma main_ingest_result:
  assumes "flagParse w = Inr (opt0, ''ingest'' # rest)"
    and "osStat w (StateDir opt0) \<noteq> StatNotExist"
    and "\<not> Version opt0"
    and "newSession w = None \<and> describeLoadBalancers w [] = Inr lbs"
  shows "snd (cmdIngest f w (fixDataset opt0) rest lbs) = Exit c \<Longrightarrow> snd (main f w) = Exit c"
    and "snd (cmdIngest f w (fixDataset opt0) rest lbs) = Panic \<Longrightarrow> snd (main f w) = Panic"
    and "snd (cmdIngest f w (fixDataset opt0) rest lbs) = Blocked \<Longrightarrow> snd (main f w) = Blocked"
  using main_cmdALB[OF assms(1-3)] cmdALB_ingest(2)[OF assms(4)]
  by (simp_all add: andThen_def)

section \<open>Start-up checks\<close>

text \<open>Where the effects of a run come from.\<close>

lemma cmdALB_events:
  assumes "e \<in> set (fst (cmdALB f w opt args))"
  shows "e = DescribeLoadBalancers [] \<or> (\<exists>s. e = Stdout s) \<or>
         (\<exists>rest lbs. args = ''ingest'' # rest \<and> describeLoadBalancers w [] = Inr lbs \<and>
                      e \<in> set (fst (cmdIngest f w opt rest lbs)))"
proof -
  have "(\<exists>s. e = Stdout s)" if "e \<in> set (fst (printNames lbs))" for lbs
    using that by (induction lbs) (auto split: option.splits)
  then show ?thesis using assms
    by (auto simp: cmdALB_def split: sum.splits list.splits if_splits option.splits)
qed

lemma main_events:
  assumes "flagParse w = Inr (opt0, args)"
    and "e \<in> set (fst (main f w))"
  shows "e \<in> set (startTrace w opt0) \<or>
         e = Log FatalLevel [FStr ''dir'' (StateDir opt0)] stateDirMessage \<or>
         (\<exists>s. e = Stdout s) \<or> (\<exists>s. e = Stderr s) \<or> (\<exists>x. e = StderrError x) \<or>
         e = DescribeLoadBalancers [] \<or>
         (\<exists>rest lbs. args = ''ingest'' # rest \<and> describeLoadBalancers w [] = Inr lbs \<and>
                      e \<in> set (fst (cmdIngest f w (fixDataset opt0) rest lbs)))"
proof -
  let ?c = "cmdALB f w (fixDataset opt0) args"
  let ?k = "\<lambda>err. case err of Some e \<Rightarrow> ([StderrError e], Exit 1::unit res) | None \<Rightarrow> ([], Ret ())"
  consider (dir) "osStat w (StateDir opt0) = StatNotExist"
    | (version) "osStat w (StateDir opt0) \<noteq> StatNotExist" "Version opt0"
    | (usage) "osStat w (StateDir opt0) \<noteq> StatNotExist" "\<not> Version opt0" "args = []"
    | (cmd) "osStat w (StateDir opt0) \<noteq> StatNotExist" "\<not> Version opt0" "args \<noteq> []"
    by blast
  then show ?thesis
  proof cases
    case dir
    then show ?thesis using assms by (auto simp: main_def)
  next
    case version
    then show ?thesis using assms by (auto simp: main_def)
  next
    case usage
    then show ?thesis using assms by (auto simp: main_def)
  next
    case cmd
    then have "fst (main f w) = startTrace w opt0 @ fst (andThen ?c ?k)"
      using assms(1) by (simp add: main_def)
    then have "e \<in> set (startTrace w opt0) \<or> e \<in> set (fst (andThen ?c ?k))"
      using assms(2) by auto
    then show ?thesis
    proof
      assume "e \<in> set (startTrace w opt0)"
      then show ?thesis by blast
    next
      assume "e \<in> set (fst (andThen ?c ?k))"
      then have "e \<in> set (fst ?c) \<or> (\<exists>x. e \<in> set (fst (?k x)))"
        using set_fst_andThen[of ?c ?k] by blast
      then show ?thesis
      proof
        assume "e \<in> set (fst ?c)"
        then show ?thesis using cmdALB_events[of e f w "fixDataset opt0" args] by blast
      next
        assume "\<exists>x. e \<in> set (fst (?k x))"
        then show ?thesis by (auto split: option.splits)
      qed
    qed
  qed
qed

lemma main_quiet:
  assumes "flagParse w = Inr (opt0, args)"
    and "\<And>rest lbs e. e \<in> set (fst (cmdIngest f w (fixDataset opt0) rest lbs)) \<Longrightarrow>
           \<not> ledgerEvent e \<and> \<not> ingestionEvent e"
  shows "\<forall>e \<in> set (fst (main f w)). \<not> ledgerEvent e \<and> \<not> ingestionEvent e"
proof
  fix e assume "e \<in> set (fst (main f w))"
  then show "\<not> ledgerEvent e \<and> \<not> ingestionEvent e"
    using main_events[OF assms(1), of e f] assms(2) startTrace_quiet[of e w opt0]
    by (auto simp: stateDirMessage_def)
qed

lemma cmdIngest_writeKey:
  "WriteKey opt = [] \<Longrightarrow> cmdIngest f w opt rest lbs = fatal [] writeKeyMessage"
  by (simp add: cmdIngest_def)

lemma cmdIngest_backfill:
  assumes "WriteKey opt \<noteq> []"
    and "rest = [] \<longrightarrow> allNames lbs \<noteq> None"
    and "BackfillHr opt < 1 \<or> 168 < BackfillHr opt"
  shows "cmdIngest f w opt rest lbs = fatal [FInt ''hours'' (BackfillHr opt)] backfillMessage"
  using assms by (auto simp: cmdIngest_def)

lemma cmdIngest_newStater:
  assumes "WriteKey opt \<noteq> []"
    and "rest = [] \<longrightarrow> allNames lbs \<noteq> None"
    and "1 \<le> BackfillHr opt" and "BackfillHr opt \<le> 168"
  shows "\<exists>k. cmdIngest f w opt rest lbs = andThen (newStater w opt) k"
  using assms by (auto simp: cmdIngest_def)

lemma cmdIngest_quiet_out_of_range:
  assumes "BackfillHr opt < 1 \<or> 168 < BackfillHr opt"
    and "e \<in> set (fst (cmdIngest f w opt rest lbs))"
  shows "\<not> ledgerEvent e \<and> \<not> ingestionEvent e"
  using assms by (auto simp: cmdIngest_def backfillMessage_def writeKeyMessage_def
      split: if_splits option.splits)

lemma newStater_no_table:
  assumes "HighAvail opt" and "newDynamoDBStater w (BackfillHr opt) = Some err"
  shows "newStater w opt =
           ([NewDynamoDBStater (BackfillHr opt),
             Log FatalLevel [FStr ''tableName'' (DynamoTableName w)] highAvailMessage], Exit 1)"
  using assms by (simp add: newStater_def fatal_def)

lemma cmdIngest_no_table_quiet:
  assumes "HighAvail opt" and "newDynamoDBStater w (BackfillHr opt) = Some err"
    and "e \<in> set (fst (cmdIngest f w opt rest lbs))"
  shows "\<not> ingestionEvent e \<and> (\<forall>d s h. e \<noteq> NewFileStater d s h)"
  using assms(3) newStater_no_table[OF assms(1,2)]
  by (auto simp: cmdIngest_def backfillMessage_def writeKeyMessage_def highAvailMessage_def
      split: if_splits option.splits)


lemma cmdIngest_no_table_result:
  assumes "HighAvail opt" and "newDynamoDBStater w (BackfillHr opt) = Some err"
  shows "snd (cmdIngest f w opt rest lbs) = Exit 1 \<or> snd (cmdIngest f w opt rest lbs) = Panic"
  using newStater_no_table[OF assms]
  by (auto simp: cmdIngest_def split: if_splits option.splits)

lemma cmdIngest_no_table:
  assumes "HighAvail opt" and "newDynamoDBStater w (BackfillHr opt) = Some err"
    and "WriteKey opt \<noteq> []"
    and "rest = [] \<longrightarrow> allNames lbs \<noteq> None"
    and "1 \<le> BackfillHr opt" and "BackfillHr opt \<le> 168"
  shows "cmdIngest f w opt rest lbs =
           ([NewDynamoDBStater (BackfillHr opt),
             Log FatalLevel [FStr ''tableName'' (DynamoTableName w)] highAvailMessage], Exit 1)"
  using newStater_no_table[OF assms(1,2)] assms(3-6)
  by (auto simp: cmdIngest_def)

text \<open>
  Claim C9. Whenever the flags parse and the configured state directory does not exist,
  the process logs the fatal entry about the directory and exits with status 1, having done
  nothing else: whatever the subcommand (also \<^verbatim>\<open>ls\<close>), whether or not high availability
  is selected, and before the version would be printed.
\<close>

theorem state_dir_missing_is_fatal:
  assumes "flagParse w = Inr (opt0, args)"
    and "osStat w (StateDir opt0) = StatNotExist"
  shows "main ingestDist w =
           (startTrace w opt0 @ [Log FatalLevel [FStr ''dir'' (StateDir opt0)] stateDirMessage],
            Exit 1)"
  using assms by (simp add: main_def fatal_def)

theorem state_dir_missing_is_fatal_witness:
  "flagParse (exampleWorld (exampleOptions\<lparr>HighAvail := True, StateDir := ''/missing'',
                                           Version := True\<rparr>) [''ls''] []) =
     Inr (exampleOptions\<lparr>HighAvail := True, StateDir := ''/missing'', Version := True\<rparr>, [''ls''])
   \<and> osStat (exampleWorld (exampleOptions\<lparr>HighAvail := True, StateDir := ''/missing'',
                                             Version := True\<rparr>) [''ls''] []) ''/missing'' =
       StatNotExist
   \<and> main ingestALB (exampleWorld (exampleOptions\<lparr>HighAvail := True, StateDir := ''/missing'',
                                                   Version := True\<rparr>) [''ls''] []) =
       ([Log DebugLevel [FStr ''version'' []] ''Program starting'',
         Log FatalLevel [FStr ''dir'' ''/missing''] ''Specified state directory does not exist''],
        Exit 1)"
  using state_dir_missing_is_fatal
          [of "exampleWorld (exampleOptions\<lparr>HighAvail := True, StateDir := ''/missing'',
                                             Version := True\<rparr>) [''ls''] []"
              "exampleOptions\<lparr>HighAvail := True, StateDir := ''/missing'', Version := True\<rparr>"
              "[''ls'']" ingestALB]
  by (simp add: exampleWorld_def exampleOptions_def startTrace_def stateDirMessage_def)

text \<open>
  Claim C10. Once the session exists, every subcommand starts with the listing call. When
  the listing fails, the run consists of that call and the report of the listing error,
  and the process exits with status 1, whatever the subcommand is. A subcommand other than
  \<^verbatim>\<open>ls\<close>, \<^verbatim>\<open>list\<close> and \<^verbatim>\<open>ingest\<close> is reported as not recognized, with status 1,
  after a listing that succeeded.
\<close>

theorem listing_comes_first:
  assumes "flagParse w = Inr (opt0, sub # rest)"
    and "osStat w (StateDir opt0) \<noteq> StatNotExist"
    and "\<not> Version opt0"
    and "newSession w = None"
  shows "(\<exists>t. fst (main ingestDist w) = startTrace w opt0 @ DescribeLoadBalancers [] # t) \<and>
         (\<forall>err. describeLoadBalancers w [] = Inl err \<longrightarrow>
            main ingestDist w =
              (startTrace w opt0 @ [DescribeLoadBalancers [], StderrError err], Exit 1)) \<and>
         (\<forall>lbs. describeLoadBalancers w [] = Inr lbs \<and> sub \<notin> {''ls'', ''list'', ''ingest''} \<longrightarrow>
            main ingestDist w =
              (startTrace w opt0 @
               [DescribeLoadBalancers [], StderrError (SubcommandNotRecognized sub)], Exit 1))"
proof -
  have "main ingestDist w =
          andThen (startTrace w opt0, Ret ()) (\<lambda>_.
          andThen (cmdALB ingestDist w (fixDataset opt0) (sub # rest)) (\<lambda>err.
            case err of Some e \<Rightarrow> ([StderrError e], Exit 1) | None \<Rightarrow> ([], Ret ())))"
    using assms(1-3) by (rule main_cmdALB)
  moreover obtain t where
    "fst (andThen (cmdALB ingestDist w (fixDataset opt0) (sub # rest)) (\<lambda>err.
            case err of Some e \<Rightarrow> ([StderrError e], Exit 1::unit res) | None \<Rightarrow> ([], Ret ()))) =
     fst (cmdALB ingestDist w (fixDataset opt0) (sub # rest)) @ t"
    using fst_andThen_prefix by blast
  ultimately show ?thesis
    using assms(4) by (auto simp: cmdALB_def)
qed

theorem listing_comes_first_witness:
  "main ingestALB
     ((exampleWorld exampleOptions [''ingest'', ''api''] [])
        \<lparr>describeLoadBalancers := (\<lambda>names. Inl (ServiceError ''AccessDenied''))\<rparr>) =
     ([Log DebugLevel [FStr ''version'' []] ''Program starting'',
       DescribeLoadBalancers [], StderrError (ServiceError ''AccessDenied'')], Exit 1)
   \<and> main ingestALB (exampleWorld exampleOptions [''frob''] []) =
     ([Log DebugLevel [FStr ''version'' []] ''Program starting'',
       DescribeLoadBalancers [], StderrError (SubcommandNotRecognized ''frob'')], Exit 1)"
  using listing_comes_first
          [of "(exampleWorld exampleOptions [''ingest'', ''api''] [])
                 \<lparr>describeLoadBalancers := (\<lambda>names. Inl (ServiceError ''AccessDenied''))\<rparr>"
              exampleOptions "''ingest''" "[''api'']" ingestALB]
        listing_comes_first
          [of "exampleWorld exampleOptions [''frob''] []" exampleOptions "''frob''" "[]" ingestALB]
  by (simp add: exampleWorld_def exampleOptions_def startTrace_def exampleDescribe_def)

text \<open>
  Claim C8. When \<^verbatim>\<open>ingest\<close> is asked for without a write key, no run creates a state
  backend or performs any step of the ingestion; and the run that reaches the subcommand
  (the state directory exists, no version flag, the session exists, the listing succeeds)
  consists of the listing call and the fatal entry that tells where the write key is
  found, and exits with status 1.
\<close>

theorem missing_write_key_is_fatal:
  assumes "flagParse w = Inr (opt0, ''ingest'' # rest)"
    and "WriteKey opt0 = []"
  shows "(\<forall>e \<in> set (fst (main ingestDist w)). \<not> ledgerEvent e \<and> \<not> ingestionEvent e) \<and>
         (osStat w (StateDir opt0) \<noteq> StatNotExist \<and> \<not> Version opt0 \<and>
          newSession w = None \<and> (\<exists>lbs. describeLoadBalancers w [] = Inr lbs) \<longrightarrow>
            main ingestDist w =
              (startTrace w opt0 @ [DescribeLoadBalancers [], Log FatalLevel [] writeKeyMessage],
               Exit 1))"
proof (intro conjI impI)
  have "\<not> ledgerEvent e \<and> \<not> ingestionEvent e"
    if "e \<in> set (fst (cmdIngest ingestDist w (fixDataset opt0) r lbs))" for r lbs e
    using that assms(2) by (simp add: cmdIngest_writeKey writeKeyMessage_def)
  with assms(1)
  show "\<forall>e \<in> set (fst (main ingestDist w)). \<not> ledgerEvent e \<and> \<not> ingestionEvent e"
    by (rule main_quiet)
next
  assume reach: "osStat w (StateDir opt0) \<noteq> StatNotExist \<and> \<not> Version opt0 \<and>
                 newSession w = None \<and> (\<exists>lbs. describeLoadBalancers w [] = Inr lbs)"
  then obtain lbs where lbs: "describeLoadBalancers w [] = Inr lbs" by blast
  have "main ingestDist w =
          andThen (startTrace w opt0, Ret ()) (\<lambda>_.
          andThen (cmdALB ingestDist w (fixDataset opt0) (''ingest'' # rest)) (\<lambda>err.
            case err of Some e \<Rightarrow> ([StderrError e], Exit 1) | None \<Rightarrow> ([], Ret ())))"
    using assms(1) reach by (intro main_cmdALB) auto
  then show "main ingestDist w =
               (startTrace w opt0 @ [DescribeLoadBalancers [], Log FatalLevel [] writeKeyMessage],
                Exit 1)"
    using lbs assms(2) reach by (simp add: cmdALB_def cmdIngest_writeKey fatal_def)
qed

theorem missing_write_key_is_fatal_witness:
  "flagParse (exampleWorld (exampleOptions\<lparr>WriteKey := []\<rparr>) [''ingest'', ''api''] []) =
     Inr (exampleOptions\<lparr>WriteKey := []\<rparr>, [''ingest'', ''api''])
   \<and> WriteKey (exampleOptions\<lparr>WriteKey := []\<rparr>) = []
   \<and> main ingestALB (exampleWorld (exampleOptions\<lparr>WriteKey := []\<rparr>) [''ingest'', ''api''] []) =
       ([Log DebugLevel [FStr ''version'' []] ''Program starting'',
         DescribeLoadBalancers [], Log FatalLevel [] writeKeyMessage], Exit 1)"
  using missing_write_key_is_fatal
          [of "exampleWorld (exampleOptions\<lparr>WriteKey := []\<rparr>) [''ingest'', ''api''] []"
              "exampleOptions\<lparr>WriteKey := []\<rparr>" "[''api'']" ingestALB]
  by (simp add: exampleWorld_def exampleOptions_def startTrace_def exampleDescribe_def)

text \<open>
  Claim C5. A run creates a state backend or performs a step of the ingestion only when the
  backfill hours lie between 1 and 168. The \<^verbatim>\<open>ingest\<close> run that reaches the check
  (state directory present, no version flag, session created, listing succeeded, write
  key set, names available) goes on to construct the state backend when the hours are in
  that range, and otherwise consists of the listing call and the fatal entry about the
  backfill, with exit status 1.
\<close>

theorem backfill_window_checked:
  assumes "flagParse w = Inr (opt0, args)"
  shows "((\<exists>e \<in> set (fst (main ingestDist w)). ledgerEvent e \<or> ingestionEvent e) \<longrightarrow>
            1 \<le> BackfillHr opt0 \<and> BackfillHr opt0 \<le> 168) \<and>
         (\<forall>rest lbs.
            args = ''ingest'' # rest \<and> osStat w (StateDir opt0) \<noteq> StatNotExist \<and>
            \<not> Version opt0 \<and> newSession w = None \<and> describeLoadBalancers w [] = Inr lbs \<and>
            WriteKey opt0 \<noteq> [] \<and>
            (rest = [] \<longrightarrow> allNames lbs \<noteq> None) \<longrightarrow>
              (if 1 \<le> BackfillHr opt0 \<and> BackfillHr opt0 \<le> 168
               then \<exists>t. fst (main ingestDist w) =
                          startTrace w opt0 @ DescribeLoadBalancers [] #
                          fst (newStater w (fixDataset opt0)) @ t
               else main ingestDist w =
                      (startTrace w opt0 @
                       [DescribeLoadBalancers [],
                        Log FatalLevel [FInt ''hours'' (BackfillHr opt0)] backfillMessage],
                       Exit 1)))"
proof (rule conjI)
  show "(\<exists>e \<in> set (fst (main ingestDist w)). ledgerEvent e \<or> ingestionEvent e) \<longrightarrow>
          1 \<le> BackfillHr opt0 \<and> BackfillHr opt0 \<le> 168"
  proof (rule impI, rule ccontr)
    assume ex: "\<exists>e \<in> set (fst (main ingestDist w)). ledgerEvent e \<or> ingestionEvent e"
    assume "\<not> (1 \<le> BackfillHr opt0 \<and> BackfillHr opt0 \<le> 168)"
    then have bad: "BackfillHr (fixDataset opt0) < 1 \<or> 168 < BackfillHr (fixDataset opt0)"
      by auto
    have "\<forall>e \<in> set (fst (main ingestDist w)). \<not> ledgerEvent e \<and> \<not> ingestionEvent e"
      using assms cmdIngest_quiet_out_of_range[OF bad] by (rule main_quiet)
    with ex show False by blast
  qed
next
  show "\<forall>rest lbs.
            args = ''ingest'' # rest \<and> osStat w (StateDir opt0) \<noteq> StatNotExist \<and>
            \<not> Version opt0 \<and> newSession w = None \<and> describeLoadBalancers w [] = Inr lbs \<and>
            WriteKey opt0 \<noteq> [] \<and>
            (rest = [] \<longrightarrow> allNames lbs \<noteq> None) \<longrightarrow>
              (if 1 \<le> BackfillHr opt0 \<and> BackfillHr opt0 \<le> 168
               then \<exists>t. fst (main ingestDist w) =
                          startTrace w opt0 @ DescribeLoadBalancers [] #
                          fst (newStater w (fixDataset opt0)) @ t
               else main ingestDist w =
                      (startTrace w opt0 @
                       [DescribeLoadBalancers [],
                        Log FatalLevel [FInt ''hours'' (BackfillHr opt0)] backfillMessage],
                       Exit 1))"
  proof (intro allI impI)
  fix rest lbs
  assume reach: "args = ''ingest'' # rest \<and> osStat w (StateDir opt0) \<noteq> StatNotExist \<and>
            \<not> Version opt0 \<and> newSession w = None \<and> describeLoadBalancers w [] = Inr lbs \<and>
            WriteKey opt0 \<noteq> [] \<and>
            (rest = [] \<longrightarrow> allNames lbs \<noteq> None)"
  let ?opt = "fixDataset opt0"
  have parse: "flagParse w = Inr (opt0, ''ingest'' # rest)" using assms reach by simp
  have trace: "fst (main ingestDist w) =
                 startTrace w opt0 @ DescribeLoadBalancers [] #
                 fst (cmdIngest ingestDist w ?opt rest lbs)"
    using main_ingest_trace[OF parse] reach by blast
  show "if 1 \<le> BackfillHr opt0 \<and> BackfillHr opt0 \<le> 168
        then \<exists>t. fst (main ingestDist w) =
                   startTrace w opt0 @ DescribeLoadBalancers [] # fst (newStater w ?opt) @ t
        else main ingestDist w =
               (startTrace w opt0 @
                [DescribeLoadBalancers [],
                 Log FatalLevel [FInt ''hours'' (BackfillHr opt0)] backfillMessage], Exit 1)"
  proof (cases "1 \<le> BackfillHr opt0 \<and> BackfillHr opt0 \<le> 168")
    case True
    then obtain k where "cmdIngest ingestDist w ?opt rest lbs = andThen (newStater w ?opt) k"
      using cmdIngest_newStater[of ?opt rest lbs ingestDist w] reach by auto
    then obtain t where "fst (cmdIngest ingestDist w ?opt rest lbs) = fst (newStater w ?opt) @ t"
      using fst_andThen_prefix by metis
    then show ?thesis using True trace by simp
  next
    case False
    then have c: "cmdIngest ingestDist w ?opt rest lbs =
                    fatal [FInt ''hours'' (BackfillHr opt0)] backfillMessage"
      using cmdIngest_backfill[of ?opt rest lbs ingestDist w] reach by auto
    then have "snd (main ingestDist w) = Exit 1"
      using main_ingest_result(1)[OF parse, of lbs ingestDist 1] reach by simp
    then have "main ingestDist w =
               (startTrace w opt0 @
                [DescribeLoadBalancers [],
                 Log FatalLevel [FInt ''hours'' (BackfillHr opt0)] backfillMessage], Exit 1)"
      using trace c by (simp add: prod_eq_iff)
    then show ?thesis using False by (simp only: if_False)
  qed
  qed
qed

theorem backfill_window_checked_witness:
  "main ingestALB (exampleWorld (exampleOptions\<lparr>BackfillHr := 169\<rparr>) [''ingest'', ''api''] []) =
     ([Log DebugLevel [FStr ''version'' []] ''Program starting'',
       DescribeLoadBalancers [], Log FatalLevel [FInt ''hours'' 169] backfillMessage], Exit 1)
   \<and> (\<exists>t. fst (main ingestALB (exampleWorld exampleOptions [''ingest'', ''api''] [])) =
           [Log DebugLevel [FStr ''version'' []] ''Program starting'',
            DescribeLoadBalancers [],
            NewFileStater ''/var/lib/honeyalb'' ''elasticloadbalancingv2'' 24,
            Log InfoLevel [] ''State tracking enabled - using local file system.''] @ t)
   \<and> (\<exists>e \<in> set (fst (main ingestALB (exampleWorld exampleOptions [''ingest'', ''api''] []))).
         ledgerEvent e \<or> ingestionEvent e)
   \<and> 1 \<le> BackfillHr exampleOptions \<and> BackfillHr exampleOptions \<le> 168"
proof -
  let ?bad = "exampleWorld (exampleOptions\<lparr>BackfillHr := 169\<rparr>) [''ingest'', ''api''] []"
  let ?good = "exampleWorld exampleOptions [''ingest'', ''api''] []"
  have bad: "main ingestALB ?bad =
     ([Log DebugLevel [FStr ''version'' []] ''Program starting'',
       DescribeLoadBalancers [], Log FatalLevel [FInt ''hours'' 169] backfillMessage], Exit 1)"
    using backfill_window_checked
            [of ?bad "exampleOptions\<lparr>BackfillHr := 169\<rparr>" "[''ingest'', ''api'']" ingestALB]
    by (simp add: exampleWorld_def exampleOptions_def startTrace_def exampleDescribe_def)
  have good: "\<exists>t. fst (main ingestALB ?good) =
           [Log DebugLevel [FStr ''version'' []] ''Program starting'',
            DescribeLoadBalancers [],
            NewFileStater ''/var/lib/honeyalb'' ''elasticloadbalancingv2'' 24,
            Log InfoLevel [] ''State tracking enabled - using local file system.''] @ t"
    using backfill_window_checked
            [of ?good exampleOptions "[''ingest'', ''api'']" ingestALB]
    by (simp add: exampleWorld_def exampleOptions_def startTrace_def exampleDescribe_def
                  newStater_def fixDataset_def)
  then have ev: "\<exists>e \<in> set (fst (main ingestALB ?good)). ledgerEvent e \<or> ingestionEvent e"
    by auto
  have "flagParse ?good = Inr (exampleOptions, [''ingest'', ''api''])"
    by (simp add: exampleWorld_def)
  then have "1 \<le> BackfillHr exampleOptions \<and> BackfillHr exampleOptions \<le> 168"
    using backfill_window_checked[of ?good exampleOptions "[''ingest'', ''api'']" ingestALB] ev
    by blast
  with bad good ev show ?thesis by blast
qed

text \<open>
  Claim C4. When high availability is selected and the DynamoDB state backend cannot be
  created, no run creates the file backend or performs any step of the ingestion, and every
  \<^verbatim>\<open>ingest\<close> run without the version flag ends with a status other than 0. The run
  that reaches the construction (all earlier checks passed) consists of the listing call,
  the attempt to create the DynamoDB backend and the fatal entry that names the table and
  refers to the README, and exits with status 1.
\<close>

theorem high_availability_requires_table:
  assumes "flagParse w = Inr (opt0, ''ingest'' # rest)"
    and "HighAvail opt0"
    and "newDynamoDBStater w (BackfillHr opt0) = Some err"
  shows "(\<forall>e \<in> set (fst (main ingestDist w)).
            \<not> ingestionEvent e \<and> (\<forall>d s h. e \<noteq> NewFileStater d s h)) \<and>
         (\<not> Version opt0 \<longrightarrow>
            (\<exists>c. exitCode (snd (main ingestDist w)) = Some c \<and> c \<noteq> 0)) \<and>
         (\<forall>lbs.
            osStat w (StateDir opt0) \<noteq> StatNotExist \<and> \<not> Version opt0 \<and>
            newSession w = None \<and> describeLoadBalancers w [] = Inr lbs \<and>
            WriteKey opt0 \<noteq> [] \<and>
            (rest = [] \<longrightarrow> allNames lbs \<noteq> None) \<and>
            1 \<le> BackfillHr opt0 \<and> BackfillHr opt0 \<le> 168 \<longrightarrow>
              main ingestDist w =
                (startTrace w opt0 @
                 [DescribeLoadBalancers [], NewDynamoDBStater (BackfillHr opt0),
                  Log FatalLevel [FStr ''tableName'' (DynamoTableName w)] highAvailMessage],
                 Exit 1))"
proof (intro conjI)
  let ?opt = "fixDataset opt0"
  have ha: "HighAvail ?opt" and nt: "newDynamoDBStater w (BackfillHr ?opt) = Some err"
    using assms(2,3) by simp_all
  show "\<forall>e \<in> set (fst (main ingestDist w)).
          \<not> ingestionEvent e \<and> (\<forall>d s h. e \<noteq> NewFileStater d s h)"
  proof
    fix e assume "e \<in> set (fst (main ingestDist w))"
    then show "\<not> ingestionEvent e \<and> (\<forall>d s h. e \<noteq> NewFileStater d s h)"
      using main_events[OF assms(1), of e ingestDist] startTrace_quiet[of e w opt0]
            cmdIngest_no_table_quiet[OF ha nt, of e ingestDist]
      by (auto simp: stateDirMessage_def)
  qed
  show "\<not> Version opt0 \<longrightarrow> (\<exists>c. exitCode (snd (main ingestDist w)) = Some c \<and> c \<noteq> 0)"
  proof
    assume nv: "\<not> Version opt0"
    show "\<exists>c. exitCode (snd (main ingestDist w)) = Some c \<and> c \<noteq> 0"
    proof (cases "osStat w (StateDir opt0) = StatNotExist")
      case True
      then show ?thesis using assms(1) by (simp add: main_def)
    next
      case False
      note run = main_cmdALB[OF assms(1) False nv, of ingestDist]
      show ?thesis
      proof (cases "describeLoadBalancers w []")
        case (Inl e)
        then show ?thesis using run by (simp add: cmdALB_def split: option.splits)
      next
        case (Inr lbs)
        show ?thesis
        proof (cases "newSession w")
          case None
          then have "snd (main ingestDist w) = Exit 1 \<or> snd (main ingestDist w) = Panic"
            using cmdIngest_no_table_result[OF ha nt, of ingestDist rest lbs] Inr
                  main_ingest_result(1,2)[OF assms(1) False nv, of lbs ingestDist]
            by blast
          then show ?thesis by auto
        next
          case (Some e)
          then show ?thesis using run by (simp add: cmdALB_def)
        qed
      qed
    qed
  qed
  show "\<forall>lbs.
            osStat w (StateDir opt0) \<noteq> StatNotExist \<and> \<not> Version opt0 \<and>
            newSession w = None \<and> describeLoadBalancers w [] = Inr lbs \<and>
            WriteKey opt0 \<noteq> [] \<and>
            (rest = [] \<longrightarrow> allNames lbs \<noteq> None) \<and>
            1 \<le> BackfillHr opt0 \<and> BackfillHr opt0 \<le> 168 \<longrightarrow>
              main ingestDist w =
                (startTrace w opt0 @
                 [DescribeLoadBalancers [], NewDynamoDBStater (BackfillHr opt0),
                  Log FatalLevel [FStr ''tableName'' (DynamoTableName w)] highAvailMessage],
                 Exit 1)"
  proof (intro allI impI)
    fix lbs
    assume reach: "osStat w (StateDir opt0) \<noteq> StatNotExist \<and> \<not> Version opt0 \<and>
            newSession w = None \<and> describeLoadBalancers w [] = Inr lbs \<and>
            WriteKey opt0 \<noteq> [] \<and>
            (rest = [] \<longrightarrow> allNames lbs \<noteq> None) \<and>
            1 \<le> BackfillHr opt0 \<and> BackfillHr opt0 \<le> 168"
    then have c: "cmdIngest ingestDist w ?opt rest lbs =
                    ([NewDynamoDBStater (BackfillHr opt0),
                      Log FatalLevel [FStr ''tableName'' (DynamoTableName w)] highAvailMessage],
                     Exit 1)"
      using cmdIngest_no_table[OF ha nt, of rest lbs ingestDist] by simp
    have "main ingestDist w =
            andThen (startTrace w opt0, Ret ()) (\<lambda>_.
            andThen (cmdALB ingestDist w ?opt (''ingest'' # rest)) (\<lambda>err.
              case err of Some e \<Rightarrow> ([StderrError e], Exit 1) | None \<Rightarrow> ([], Ret ())))"
      using assms(1) reach by (intro main_cmdALB) auto
    then show "main ingestDist w =
                 (startTrace w opt0 @
                  [DescribeLoadBalancers [], NewDynamoDBStater (BackfillHr opt0),
                   Log FatalLevel [FStr ''tableName'' (DynamoTableName w)] highAvailMessage],
                  Exit 1)"
      using reach c by (simp add: cmdALB_def)
  qed
qed

theorem high_availability_requires_table_witness:
  "HighAvail (exampleOptions\<lparr>HighAvail := True\<rparr>)
   \<and> newDynamoDBStater (exampleWorld (exampleOptions\<lparr>HighAvail := True\<rparr>) [''ingest''] []) 24 =
       Some (ServiceError ''ResourceNotFoundException'')
   \<and> main ingestALB (exampleWorld (exampleOptions\<lparr>HighAvail := True\<rparr>) [''ingest''] []) =
       ([Log DebugLevel [FStr ''version'' []] ''Program starting'',
         DescribeLoadBalancers [], NewDynamoDBStater 24,
         Log FatalLevel [FStr ''tableName'' ''HoneyAWSAccessLogBuckets''] highAvailMessage],
        Exit 1)"
  using high_availability_requires_table
          [of "exampleWorld (exampleOptions\<lparr>HighAvail := True\<rparr>) [''ingest''] []"
              "exampleOptions\<lparr>HighAvail := True\<rparr>" "[]"
              "ServiceError ''ResourceNotFoundException''" ingestALB]
  by (simp add: exampleWorld_def exampleOptions_def startTrace_def exampleDescribe_def
                lbWeb_def lbApi_def)

section \<open>The per-resource set-up\<close>

lemma scanStep_enabled:
  "scanStep a s = Some s' \<Longrightarrow>
     enabled s' = (enabled s \<or> (Key a = Some ''access_logs.s3.enabled'' \<and> Value a = Some ''true''))"
  by (auto simp: scanStep_def split: option.splits if_splits)

lemma scanAttributes_enabled:
  "scanAttributes attrs s = Some s' \<Longrightarrow> enabled s' = (enabled s \<or> accessLogsEnabled attrs)"
proof (induction attrs arbitrary: s)
  case Nil
  then show ?case by (simp add: accessLogsEnabled_def)
next
  case (Cons a attrs)
  then obtain s1 where s1: "scanStep a s = Some s1" and rest: "scanAttributes attrs s1 = Some s'"
    by (auto split: option.splits)
  have "enabled s' = (enabled s1 \<or> accessLogsEnabled attrs)"
    using Cons.IH[OF rest] .
  then show ?case
    using scanStep_enabled[OF s1] by (auto simp: accessLogsEnabled_def)
qed

lemma scanStep_wellFormed:
  "Key a \<noteq> None \<Longrightarrow> Value a \<noteq> None \<Longrightarrow> scanStep a s \<noteq> None"
  by (auto simp: scanStep_def split: option.splits)

lemma scanAttributes_wellFormed:
  "wellFormed attrs \<Longrightarrow> scanAttributes attrs s \<noteq> None"
proof (induction attrs arbitrary: s)
  case Nil
  then show ?case by simp
next
  case (Cons a attrs)
  then obtain s1 where "scanStep a s = Some s1"
    using scanStep_wellFormed[of a s] by (auto simp: wellFormed_def)
  then show ?case using Cons by (simp add: wellFormed_def)
qed

lemma ingestALB_scanned:
  assumes "describeLoadBalancers w [ident] = Inr (lb # lbs)"
    and "describeLoadBalancerAttributes w (LoadBalancerArn lb) = Inr attrs"
    and "scanAttributes attrs scanStart = Some s"
  shows "ingestALB w opt ident stater =
           (if accessLogsEnabled attrs
            then ([DescribeLoadBalancers [ident],
                   DescribeLoadBalancerAttributes (LoadBalancerArn lb),
                   Log InfoLevel [FStr ''bucket'' (bucketName s), FStr ''lbName'' ident]
                     (''Access logs are enabled for ALB '' @ heart),
                   GoDownload stater (bucketName s) (bucketPrefix s) ident (BackfillHr opt)],
                  Ret None)
            else ([DescribeLoadBalancers [ident],
                   DescribeLoadBalancerAttributes (LoadBalancerArn lb),
                   StderrAccessLogs ident],
                  Ret (Some (ErrorsNew ''access logs no enabled''))))"
  using assms scanAttributes_enabled[OF assms(3)]
  by (simp add: ingestALB_def scanStart_def)

lemma ingestALB_panic:
  assumes "describeLoadBalancers w [ident] = Inr (lb # lbs)"
    and "describeLoadBalancerAttributes w (LoadBalancerArn lb) = Inr attrs"
    and "scanAttributes attrs scanStart = None"
  shows "ingestALB w opt ident stater =
           ([DescribeLoadBalancers [ident],
             DescribeLoadBalancerAttributes (LoadBalancerArn lb)], Panic)"
  using assms by (simp add: ingestALB_def)

text \<open>
  Claim C7. For a load balancer whose attributes do not switch access logging on, the
  set-up starts no downloader and never returns success. When no pointer of the answer is
  nil, it consists of the two API calls and the message on standard error that names the
  load balancer, and it returns the error \<^verbatim>\<open>access logs no enabled\<close>.
\<close>

theorem disabled_access_logs_fail_fast:
  assumes "describeLoadBalancers w [ident] = Inr (lb # lbs)"
    and "describeLoadBalancerAttributes w (LoadBalancerArn lb) = Inr attrs"
    and "\<not> accessLogsEnabled attrs"
  shows "(\<forall>e \<in> set (fst (ingestALB w opt ident stater)). \<forall>i. \<not> startsDownloader i e) \<and>
         snd (ingestALB w opt ident stater) \<noteq> Ret None \<and>
         (wellFormed attrs \<longrightarrow>
            ingestALB w opt ident stater =
              ([DescribeLoadBalancers [ident],
                DescribeLoadBalancerAttributes (LoadBalancerArn lb),
                StderrAccessLogs ident],
               Ret (Some (ErrorsNew ''access logs no enabled''))))"
proof (cases "scanAttributes attrs scanStart")
  case None
  then have "\<not> wellFormed attrs" using scanAttributes_wellFormed by blast
  then show ?thesis using ingestALB_panic[OF assms(1,2) None] by simp
next
  case (Some s)
  show ?thesis using ingestALB_scanned[OF assms(1,2) Some] assms(3) by simp
qed

theorem disabled_access_logs_fail_fast_witness:
  "describeLoadBalancers (exampleWorld exampleOptions [''ingest''] []) [''web''] = Inr [lbWeb]
   \<and> describeLoadBalancerAttributes (exampleWorld exampleOptions [''ingest''] [])
        (LoadBalancerArn lbWeb) = Inr attrsWeb
   \<and> \<not> accessLogsEnabled attrsWeb \<and> wellFormed attrsWeb
   \<and> ingestALB (exampleWorld exampleOptions [''ingest''] []) exampleOptions ''web''
        (FileStater ''/var/lib/honeyalb'' ''elasticloadbalancingv2'' 24) =
       ([DescribeLoadBalancers [''web''], DescribeLoadBalancerAttributes (Some ''arn:web''),
         StderrAccessLogs ''web''],
        Ret (Some (ErrorsNew ''access logs no enabled'')))"
proof -
  let ?w = "exampleWorld exampleOptions [''ingest''] []"
  have h1: "describeLoadBalancers ?w [''web''] = Inr (lbWeb # [])"
    by (simp add: exampleWorld_def exampleDescribe_def)
  have h2: "describeLoadBalancerAttributes ?w (LoadBalancerArn lbWeb) = Inr attrsWeb"
    by (simp add: exampleWorld_def exampleAttributes_def lbWeb_def)
  have h3: "\<not> accessLogsEnabled attrsWeb"
    by (simp add: accessLogsEnabled_def attrsWeb_def)
  have h4: "wellFormed attrsWeb"
    by (simp add: wellFormed_def attrsWeb_def)
  show ?thesis
    using h1 h2 h3 h4 disabled_access_logs_fail_fast[OF h1 h2 h3]
    by (simp add: lbWeb_def)
qed

section \<open>The publisher loop\<close>

lemma publishLoop_Download [simp]:
  "publishLoop w n (Download d # rest) =
     (Publish d #
      (case publish w n d of None \<Rightarrow> [] | Some err \<Rightarrow> [cannotPublish d err]) @
      fst (publishLoop w (Suc n) rest),
      snd (publishLoop w (Suc n) rest))"
  by (cases "publish w n d") simp_all

declare publishLoop.simps(3) [simp del]

lemma publishLoop_result:
  "snd (publishLoop w n xs) = (if Interrupt \<in> set xs then Exit 1 else Blocked)"
proof (induction xs arbitrary: n)
  case Nil
  then show ?case by simp
next
  case (Cons x xs)
  then show ?case by (cases x) simp_all
qed

lemma publishLoop_append:
  "Interrupt \<notin> set xs \<Longrightarrow>
     publishLoop w n (xs @ ys) =
       (fst (publishLoop w n xs) @ fst (publishLoop w (n + length xs) ys),
        snd (publishLoop w (n + length xs) ys))"
proof (induction xs arbitrary: n)
  case Nil
  then show ?case by simp
next
  case (Cons x xs)
  then show ?case by (cases x) simp_all
qed

lemma publishLoop_publishes:
  "filter (publishes k) (fst (publishLoop w n (map Download ds))) =
     map Publish (filter (\<lambda>d. ObjectKey d = k) ds)"
  by (induction ds arbitrary: n)
     (auto simp: cannotPublish_def split: option.splits)

text \<open>
  Claim C6. Let the object \<open>A\<close> arrive before the object \<open>B\<close>, with no interrupt before
  \<open>B\<close>, and let the publishing of \<open>A\<close> fail. Then the loop logs the failure of \<open>A\<close> with
  the object and the error, and later calls the publisher on \<open>B\<close>; the loop ends only by an
  interrupt, and is otherwise waiting for the next object.
\<close>

theorem publish_failure_does_not_stop_loop:
  assumes "Interrupt \<notin> set xs" and "Interrupt \<notin> set ys"
    and "publish w (n + length xs) A = Some err"
  shows "(\<exists>t1 t2 t3. fst (publishLoop w n (xs @ Download A # ys @ Download B # zs)) =
                       t1 @ [Publish A, cannotPublish A err] @ t2 @ Publish B # t3) \<and>
         snd (publishLoop w n (xs @ Download A # ys @ Download B # zs)) =
           (if Interrupt \<in> set zs then Exit 1 else Blocked)"
proof
  let ?m = "n + length xs"
  have "fst (publishLoop w n (xs @ Download A # ys @ Download B # zs)) =
          fst (publishLoop w n xs) @ fst (publishLoop w ?m (Download A # ys @ Download B # zs))"
    using assms(1) by (simp add: publishLoop_append)
  also have "fst (publishLoop w ?m (Download A # ys @ Download B # zs)) =
               [Publish A, cannotPublish A err] @ fst (publishLoop w (Suc ?m) (ys @ Download B # zs))"
    using assms(3) by simp
  also have "fst (publishLoop w (Suc ?m) (ys @ Download B # zs)) =
               fst (publishLoop w (Suc ?m) ys) @
               fst (publishLoop w (Suc ?m + length ys) (Download B # zs))"
    using assms(2) by (simp add: publishLoop_append)
  also have "fst (publishLoop w (Suc ?m + length ys) (Download B # zs)) =
               Publish B # tl (fst (publishLoop w (Suc ?m + length ys) (Download B # zs)))"
    by simp
  finally show "\<exists>t1 t2 t3. fst (publishLoop w n (xs @ Download A # ys @ Download B # zs)) =
                             t1 @ [Publish A, cannotPublish A err] @ t2 @ Publish B # t3"
    by blast
  show "snd (publishLoop w n (xs @ Download A # ys @ Download B # zs)) =
          (if Interrupt \<in> set zs then Exit 1 else Blocked)"
    using assms(1,2) by (simp add: publishLoop_result)
qed

theorem publish_failure_does_not_stop_loop_witness:
  "Interrupt \<notin> set [Download objGood] \<and> Interrupt \<notin> set []
   \<and> publish (exampleWorld exampleOptions [''ingest''] []) (0 + length [Download objGood]) objBad =
       Some (ServiceError ''parse'')
   \<and> (\<exists>t1 t2 t3. fst (publishLoop (exampleWorld exampleOptions [''ingest''] []) 0
                        ([Download objGood] @ Download objBad # [] @ Download objGood # [])) =
                   t1 @ [Publish objBad, cannotPublish objBad (ServiceError ''parse'')] @ t2 @
                   Publish objGood # t3)
   \<and> snd (publishLoop (exampleWorld exampleOptions [''ingest''] []) 0
            ([Download objGood] @ Download objBad # [] @ Download objGood # [])) = Blocked"
proof -
  let ?w = "exampleWorld exampleOptions [''ingest''] []"
  have h1: "Interrupt \<notin> set [Download objGood]" by simp
  have h2: "Interrupt \<notin> set []" by simp
  have h3: "publish ?w (0 + length [Download objGood]) objBad = Some (ServiceError ''parse'')"
    by (simp add: exampleWorld_def objBad_def)
  show ?thesis
    using h1 h3 publish_failure_does_not_stop_loop[OF h1 h2 h3, of objGood "[]"]
    by simp
qed

section \<open>Interrupt and exit status\<close>

lemma fatalExits_andThen:
  "fatalExits m \<Longrightarrow> (\<And>x. fatalExits (k x)) \<Longrightarrow> fatalExits (andThen m k)"
  by (cases "snd m") (auto simp: fatalExits_def andThen_def list_ex_iff)

lemma fatalExits_simps [simp]:
  "fatalExits (emit e) = (\<not> isFatal e)"
  "fatalExits (fatal fs msg)"
  "fatalExits (fatalErr err)"
  "fatalExits ([], r)"
  by (simp_all add: fatalExits_def emit_def fatal_def fatalErr_def)

lemma fatalExits_Cons [simp]:
  "fatalExits (e # t, r) = (if isFatal e then r = Exit 1 else fatalExits (t, r))"
  by (auto simp: fatalExits_def)

lemma endsWithOne_andThen:
  "endsWithOne m \<Longrightarrow> (\<And>x. endsWithOne (k x)) \<Longrightarrow> endsWithOne (andThen m k)"
  by (cases "snd m") (auto simp: endsWithOne_def andThen_def)

lemma endsWithOne_simps [simp]:
  "endsWithOne (emit e)"
  "endsWithOne (fatal fs msg)"
  "endsWithOne (fatalErr err)"
  "endsWithOne (t, Ret x)"
  "endsWithOne (t, Panic)"
  "endsWithOne (t, Exit 1)"
  by (simp_all add: endsWithOne_def emit_def fatal_def fatalErr_def)

lemma endsWithOne_trace [simp]: "endsWithOne (t, snd m) = endsWithOne m"
  by (simp add: endsWithOne_def)

lemma ingestALB_fatalExits: "fatalExits (ingestALB w opt ident st)"
  unfolding ingestALB_def
  by (auto intro!: fatalExits_andThen simp del: andThen_emit
           split: sum.splits list.splits option.splits)

lemma ingestALB_endsWithOne: "endsWithOne (ingestALB w opt ident st)"
  unfolding ingestALB_def
  by (auto intro!: endsWithOne_andThen simp del: andThen_emit
           split: sum.splits list.splits option.splits)

lemma ingestAll_fatalExits: "fatalExits (ingestAll ingestALB w opt st named names)"
  by (induction names)
     (auto intro!: fatalExits_andThen ingestALB_fatalExits
           simp: attempting_def couldNotIngest_def simp del: andThen_emit andThen_fatal
           split: option.splits)

lemma ingestAll_endsWithOne: "endsWithOne (ingestAll ingestALB w opt st named names)"
  by (induction names)
     (auto intro!: endsWithOne_andThen ingestALB_endsWithOne
           simp del: andThen_emit andThen_fatal split: option.splits)

lemma newStater_fatalExits: "fatalExits (newStater w opt)"
  unfolding newStater_def
  by (auto intro!: fatalExits_andThen simp del: andThen_emit andThen_fatal
           split: option.splits)

lemma newStater_endsWithOne: "endsWithOne (newStater w opt)"
  unfolding newStater_def
  by (auto intro!: endsWithOne_andThen simp del: andThen_emit andThen_fatal
           split: option.splits)

lemma publishLoop_fatalExits: "fatalExits (publishLoop w n xs)"
proof (induction xs arbitrary: n)
  case Nil
  then show ?case by simp
next
  case (Cons x xs)
  then show ?case
    by (cases x) (auto simp: fatalExits_def cannotPublish_def list_ex_iff split: option.splits)
qed

lemma printNames_fatalExits: "fatalExits (printNames lbs)"
  using printNames_quiet by (auto simp: fatalExits_def list_ex_iff)

lemma cmdIngest_fatalExits: "fatalExits (cmdIngest ingestALB w opt rest lbs)"
  unfolding cmdIngest_def
  by (auto intro!: fatalExits_andThen newStater_fatalExits ingestAll_fatalExits
                   publishLoop_fatalExits
           simp del: andThen_emit andThen_fatal split: option.splits)

lemma cmdALB_fatalExits: "fatalExits (cmdALB ingestALB w opt args)"
  unfolding cmdALB_def
  by (auto intro!: fatalExits_andThen printNames_fatalExits cmdIngest_fatalExits
           simp del: andThen_emit andThen_fatal split: sum.splits list.splits option.splits)

lemma main_fatalExits: "fatalExits (main ingestALB w)"
  unfolding main_def
  by (auto intro!: fatalExits_andThen cmdALB_fatalExits
           simp: startTrace_def simp del: andThen_emit andThen_fatal andThen_Ret
           split: sum.splits option.splits)

text \<open>Nothing before the publisher loop reads what arrives.\<close>

lemma ingestALB_arrivals [simp]:
  "ingestALB (w\<lparr>arrivals := a\<rparr>) opt ident st = ingestALB w opt ident st"
  by (simp add: ingestALB_def cong: sum.case_cong list.case_cong)

lemma ingestAll_arrivals [simp]:
  "ingestAll ingestALB (w\<lparr>arrivals := a\<rparr>) opt st named names =
     ingestAll ingestALB w opt st named names"
  by (induction names) simp_all

lemma newStater_arrivals [simp]: "newStater (w\<lparr>arrivals := a\<rparr>) opt = newStater w opt"
  by (simp add: newStater_def cong: option.case_cong)

lemma publishLoop_arrivals [simp]:
  "publishLoop (w\<lparr>arrivals := a\<rparr>) n xs = publishLoop w n xs"
proof (induction xs arbitrary: n)
  case Nil
  then show ?case by simp
next
  case (Cons x xs)
  then show ?case by (cases x) simp_all
qed

lemma start_arrivals [simp]:
  "startTrace (w\<lparr>arrivals := a\<rparr>) opt0 = startTrace w opt0"
  "versionStr (w\<lparr>arrivals := a\<rparr>) = versionStr w"
  "usage (w\<lparr>arrivals := a\<rparr>) = usage w"
  by (simp_all add: startTrace_def versionStr_def usage_def)

lemma endsWithOne_not_Blocked: "endsWithOne m \<Longrightarrow> snd m \<noteq> Blocked"
  by (auto simp: endsWithOne_def)

lemma loopShape_const: "r \<noteq> Blocked \<Longrightarrow> loopShape w (\<lambda>a. (t, r))"
  unfolding loopShape_def
  by (rule exI[of _ t], rule exI[of _ "Some r"]) simp

lemma loopShape_loop: "loopShape w (\<lambda>a. publishLoop w 0 a)"
  unfolding loopShape_def
  by (rule exI[of _ "[]"], rule exI[of _ None]) (simp add: publishLoop_result prod_eq_iff)

lemma loopShape_andThen:
  assumes "snd m \<noteq> Blocked" and "\<And>x. loopShape w (\<lambda>a. k x a)"
  shows "loopShape w (\<lambda>a. andThen m (\<lambda>x. k x a))"
proof (cases "snd m")
  case (Ret x)
  from assms(2)[of x] obtain pre early where e: "early \<noteq> Some Blocked"
    and k: "\<And>a. k x a = (case early of
                       Some r \<Rightarrow> (pre, r)
                     | None \<Rightarrow> (pre @ fst (publishLoop w 0 a),
                                if Interrupt \<in> set a then Exit 1 else Blocked))"
    unfolding loopShape_def by blast
  show ?thesis
    unfolding loopShape_def
    by (rule exI[of _ "fst m @ pre"], rule exI[of _ early])
       (use Ret e k in \<open>auto simp: andThen_def split: option.splits\<close>)
next
  case (Exit c)
  then have "andThen m (\<lambda>x. k x a) = (fst m, Exit c)" for a by (simp add: andThen_def)
  then show ?thesis using loopShape_const[of "Exit c" w "fst m"] by simp
next
  case Panic
  then have "andThen m (\<lambda>x. k x a) = (fst m, Panic)" for a by (simp add: andThen_def)
  then show ?thesis using loopShape_const[of Panic w "fst m"] by simp
next
  case Blocked
  then show ?thesis using assms(1) by simp
qed

lemma loopShape_then:
  assumes "loopShape w g" and "\<And>x. snd (k x) \<noteq> Blocked"
  shows "loopShape w (\<lambda>a. andThen (g a) k)"
proof -
  from assms(1) obtain pre early where e: "early \<noteq> Some Blocked"
    and g: "\<And>a. g a = (case early of
                       Some r \<Rightarrow> (pre, r)
                     | None \<Rightarrow> (pre @ fst (publishLoop w 0 a),
                                if Interrupt \<in> set a then Exit 1 else Blocked))"
    unfolding loopShape_def by blast
  show ?thesis
  proof (cases early)
    case None
    show ?thesis
      unfolding loopShape_def
      by (rule exI[of _ pre], rule exI[of _ None]) (simp add: g None andThen_def)
  next
    case (Some r)
    then have "andThen (g a) k = andThen (pre, r) k" for a by (simp add: g)
    moreover have "snd (andThen (pre, r) k) \<noteq> Blocked"
      using e Some assms(2) by (cases r) (simp_all add: andThen_def)
    ultimately show ?thesis
      using loopShape_const[of "snd (andThen (pre, r) k)" w "fst (andThen (pre, r) k)"]
      by simp
  qed
qed

lemma cmdIngest_loopShape:
  "loopShape w (\<lambda>a. cmdIngest ingestALB (w\<lparr>arrivals := a\<rparr>) opt rest lbs)"
proof -
  have inner: "loopShape w (\<lambda>a. andThen (newStater w opt) (\<lambda>stater.
               andThen (emit (Log DebugLevel
                                [FInt ''hours'' (BackfillHr opt * 3600000000000)]
                                ''Backfill will be'')) (\<lambda>_.
               andThen (emit (NewHoneycombPublisher stater)) (\<lambda>_.
               andThen (ingestAll ingestALB w opt stater named names) (\<lambda>_.
               andThen (emit SignalNotify) (\<lambda>_.
               publishLoop w 0 a))))))" for named names
    by (intro loopShape_andThen loopShape_loop endsWithOne_not_Blocked
              newStater_endsWithOne ingestAll_endsWithOne endsWithOne_simps)
  show ?thesis
    unfolding cmdIngest_def
    by (cases "WriteKey opt = []"; cases "allNames lbs"; cases "rest = []";
        cases "BackfillHr opt < 1 \<or> 168 < BackfillHr opt")
       (simp_all add: inner fatal_def loopShape_const del: andThen_emit)
qed

lemma cmdALB_loopShape:
  "loopShape w (\<lambda>a. cmdALB ingestALB (w\<lparr>arrivals := a\<rparr>) opt args)"
proof -
  have names: "loopShape w (\<lambda>a. printNames lbs)" for lbs
  proof -
    have "snd (printNames lbs) \<noteq> Blocked" by (simp add: printNames_result)
    then have "loopShape w (\<lambda>a. (fst (printNames lbs), snd (printNames lbs)))"
      by (rule loopShape_const)
    then show ?thesis by simp
  qed
  have "loopShape w (\<lambda>a. case describeLoadBalancers w [] of
         Inl err \<Rightarrow> ([], Ret (Some err))
       | Inr lbs \<Rightarrow>
           (case args of
              [] \<Rightarrow> ([], Panic)
            | sub # rest \<Rightarrow>
                if sub = ''ls'' \<or> sub = ''list'' then printNames lbs
                else if sub = ''ingest''
                then cmdIngest ingestALB (w\<lparr>arrivals := a\<rparr>) opt rest lbs
                else ([], Ret (Some (SubcommandNotRecognized sub)))))"
  proof (cases "describeLoadBalancers w []")
    case (Inl err)
    then show ?thesis by (simp add: loopShape_const)
  next
    case (Inr lbs)
    show ?thesis
    proof (cases args)
      case Nil
      then show ?thesis using Inr by (simp add: loopShape_const)
    next
      case (Cons sub rest)
      consider "sub = ''ls'' \<or> sub = ''list''"
        | "\<not> (sub = ''ls'' \<or> sub = ''list'')" "sub = ''ingest''"
        | "\<not> (sub = ''ls'' \<or> sub = ''list'')" "sub \<noteq> ''ingest''"
        by blast
      then show ?thesis
        using Inr Cons
        by cases (simp_all add: cmdIngest_loopShape names loopShape_const)
    qed
  qed
  then have "loopShape w (\<lambda>a. andThen (emit (DescribeLoadBalancers [])) (\<lambda>_.
       case describeLoadBalancers w [] of
         Inl err \<Rightarrow> ([], Ret (Some err))
       | Inr lbs \<Rightarrow>
           (case args of
              [] \<Rightarrow> ([], Panic)
            | sub # rest \<Rightarrow>
                if sub = ''ls'' \<or> sub = ''list'' then printNames lbs
                else if sub = ''ingest''
                then cmdIngest ingestALB (w\<lparr>arrivals := a\<rparr>) opt rest lbs
                else ([], Ret (Some (SubcommandNotRecognized sub))))))"
    by (intro loopShape_andThen) (simp_all add: emit_def)
  then show ?thesis
    unfolding cmdALB_def
    by (cases "newSession w") (simp_all add: loopShape_const del: andThen_emit)
qed

lemma main_loopShape: "loopShape w (\<lambda>a. main ingestALB (w\<lparr>arrivals := a\<rparr>))"
proof (cases "flagParse w")
  case (Inl err)
  then show ?thesis by (simp add: main_def loopShape_const)
next
  case (Inr p)
  obtain opt0 args where p: "p = (opt0, args)" by (cases p)
  let ?k = "\<lambda>err. case err of Some e \<Rightarrow> ([StderrError e], Exit 1::unit res) | None \<Rightarrow> ([], Ret ())"
  have k: "snd (?k x) \<noteq> Blocked" for x by (cases x) simp_all
  have c: "loopShape w (\<lambda>a. andThen (cmdALB ingestALB (w\<lparr>arrivals := a\<rparr>) opt args) ?k)" for opt
    using cmdALB_loopShape k by (rule loopShape_then)
  have "loopShape w (\<lambda>a.
            if osStat w (StateDir opt) = StatNotExist
            then fatal [FStr ''dir'' (StateDir opt)] stateDirMessage
            else if Version opt
            then ([Stdout (''honeyalb version '' @ versionStr w @ [CHR 0x0A])], Exit 0)
            else if args = []
            then ([Stderr (usage w)], Exit 1)
            else andThen (cmdALB ingestALB (w\<lparr>arrivals := a\<rparr>) opt args) ?k)" for opt
    by (cases "osStat w (StateDir opt) = StatNotExist"; cases "Version opt"; cases "args = []")
       (simp_all add: fatal_def loopShape_const c)
  then have "loopShape w (\<lambda>a. andThen (startTrace w opt0, Ret (fixDataset opt0)) (\<lambda>opt.
            if osStat w (StateDir opt) = StatNotExist
            then fatal [FStr ''dir'' (StateDir opt)] stateDirMessage
            else if Version opt
            then ([Stdout (''honeyalb version '' @ versionStr w @ [CHR 0x0A])], Exit 0)
            else if args = []
            then ([Stderr (usage w)], Exit 1)
            else andThen (cmdALB ingestALB (w\<lparr>arrivals := a\<rparr>) opt args) ?k))"
    by (intro loopShape_andThen) simp_all
  then show ?thesis
    using Inr p by (simp add: main_def del: andThen_Ret cong: if_cong)
qed

lemma andThen_exit_one:
  assumes "snd (andThen m k) = Exit c"
    and "\<And>c. snd m = Exit c \<Longrightarrow> c = 1"
    and "\<And>x c. snd (k x) = Exit c \<Longrightarrow> c = 1"
  shows "c = 1"
  using assms by (cases "snd m") (auto simp: andThen_def)

lemma endsWithOne_exit: "endsWithOne m \<Longrightarrow> snd m = Exit c \<Longrightarrow> c = 1"
  by (auto simp: endsWithOne_def)

lemma cmdIngest_exit_one:
  assumes "snd (cmdIngest ingestALB w opt rest lbs) = Exit c"
  shows "c = 1"
proof -
  have loop: "snd (andThen (emit SignalNotify) (\<lambda>_. publishLoop w 0 (arrivals w))) = Exit c
                \<Longrightarrow> c = 1" for c
    by (simp add: publishLoop_result split: if_splits)
  have "snd (andThen (newStater w opt) (\<lambda>stater.
               andThen (emit (Log DebugLevel
                                [FInt ''hours'' (BackfillHr opt * 3600000000000)]
                                ''Backfill will be'')) (\<lambda>_.
               andThen (emit (NewHoneycombPublisher stater)) (\<lambda>_.
               andThen (ingestAll ingestALB w opt stater named names) (\<lambda>_.
               andThen (emit SignalNotify) (\<lambda>_.
               publishLoop w 0 (arrivals w))))))) = Exit c \<Longrightarrow> c = 1" for named names
    by (elim andThen_exit_one)
       (auto dest: endsWithOne_exit[OF newStater_endsWithOne]
                   endsWithOne_exit[OF ingestAll_endsWithOne]
             simp: emit_def publishLoop_result split: if_splits)
  then show ?thesis
    using assms unfolding cmdIngest_def
    by (auto simp del: andThen_emit split: if_splits option.splits)
qed

lemma main_exit_zero:
  "exitCode (snd (main ingestALB w)) = Some 0 \<longleftrightarrow>
     (\<exists>opt0 args. flagParse w = Inr (opt0, args) \<and> osStat w (StateDir opt0) \<noteq> StatNotExist \<and>
        (Version opt0 \<or>
         (\<exists>sub rest lbs. args = sub # rest \<and> (sub = ''ls'' \<or> sub = ''list'') \<and>
            newSession w = None \<and> describeLoadBalancers w [] = Inr lbs \<and>
            allNames lbs \<noteq> None)))"
proof (cases "flagParse w")
  case (Inl err)
  then show ?thesis by (simp add: main_def)
next
  case (Inr p)
  obtain opt0 args where p: "p = (opt0, args)" by (cases p)
  note parse = Inr[unfolded p]
  consider (dir) "osStat w (StateDir opt0) = StatNotExist"
    | (version) "osStat w (StateDir opt0) \<noteq> StatNotExist" "Version opt0"
    | (usage) "osStat w (StateDir opt0) \<noteq> StatNotExist" "\<not> Version opt0" "args = []"
    | (cmd) sub rest where "osStat w (StateDir opt0) \<noteq> StatNotExist" "\<not> Version opt0"
        "args = sub # rest"
    by (cases args) auto
  then show ?thesis
  proof cases
    case dir
    then show ?thesis using parse by (simp add: main_def)
  next
    case version
    then show ?thesis using parse by (simp add: main_def)
  next
    case usage
    then show ?thesis using parse by (simp add: main_def)
  next
    case cmd
    note run = main_cmdALB[OF parse[unfolded cmd(3)] cmd(1,2), of ingestALB]
    show ?thesis
    proof (cases "describeLoadBalancers w []"; cases "newSession w")
      fix e x assume "newSession w = Some e" "describeLoadBalancers w [] = Inl x"
      then show ?thesis using run parse cmd by (simp add: cmdALB_def)
    next
      fix e x assume "newSession w = Some e" "describeLoadBalancers w [] = Inr x"
      then show ?thesis using run parse cmd by (simp add: cmdALB_def)
    next
      fix err assume "newSession w = None" "describeLoadBalancers w [] = Inl err"
      then show ?thesis using run parse cmd by (simp add: cmdALB_def)
    next
      fix lbs assume sess: "newSession w = None" and Inr: "describeLoadBalancers w [] = Inr lbs"
      consider (ls) "sub = ''ls'' \<or> sub = ''list''"
        | (ingest) "\<not> (sub = ''ls'' \<or> sub = ''list'')" "sub = ''ingest''"
        | (other) "\<not> (sub = ''ls'' \<or> sub = ''list'')" "sub \<noteq> ''ingest''"
        by blast
      then show ?thesis
      proof cases
        case ls
        then have "snd (main ingestALB w) = (if allNames lbs = None then Panic else Ret ())"
          using run Inr ls sess by (auto simp: cmdALB_def printNames_result snd_andThen)
        then show ?thesis using parse cmd Inr ls sess by auto
      next
        case ingest
        have "snd (main ingestALB w) \<noteq> Exit 0 \<and> snd (main ingestALB w) \<noteq> Ret ()"
          using run Inr ingest sess
                cmdIngest_exit_one[of w "fixDataset opt0" rest lbs]
                cmdIngest_not_Ret[of ingestALB w "fixDataset opt0" rest lbs]
          by (cases "snd (cmdIngest ingestALB w (fixDataset opt0) rest lbs)")
             (auto simp: cmdALB_def snd_andThen)
        then have "exitCode (snd (main ingestALB w)) \<noteq> Some 0"
          by (cases "snd (main ingestALB w)") auto
        then show ?thesis using parse cmd ingest by auto
      next
        case other
        then show ?thesis using run parse cmd Inr sess by (simp add: cmdALB_def)
      qed
    qed
  qed
qed

lemma main_interrupt:
  assumes "snd (main ingestALB w) = Blocked"
  shows "main ingestALB (w\<lparr>arrivals := arrivals w @ Interrupt # zs\<rparr>) =
           (fst (main ingestALB w) @ [Log FatalLevel [] ''Exiting due to interrupt.''], Exit 1)"
proof -
  obtain pre early where e: "early \<noteq> Some Blocked"
    and shape: "\<And>a. main ingestALB (w\<lparr>arrivals := a\<rparr>) =
                  (case early of
                     Some r \<Rightarrow> (pre, r)
                   | None \<Rightarrow> (pre @ fst (publishLoop w 0 a),
                              if Interrupt \<in> set a then Exit 1 else Blocked))"
    using main_loopShape[of w] unfolding loopShape_def by blast
  have here: "main ingestALB w =
                (case early of
                   Some r \<Rightarrow> (pre, r)
                 | None \<Rightarrow> (pre @ fst (publishLoop w 0 (arrivals w)),
                            if Interrupt \<in> set (arrivals w) then Exit 1 else Blocked))"
    using shape[of "arrivals w"] by simp
  then have none: "early = None" and quiet: "Interrupt \<notin> set (arrivals w)"
    using assms e by (auto split: option.splits if_splits)
  have "fst (publishLoop w 0 (arrivals w @ Interrupt # zs)) =
          fst (publishLoop w 0 (arrivals w)) @ [Log FatalLevel [] ''Exiting due to interrupt.'']"
    using quiet by (simp add: publishLoop_append)
  then show ?thesis
    using shape[of "arrivals w @ Interrupt # zs"] here none by simp
qed

lemmas example_defs =
  exampleWorld_def exampleOptions_def exampleDescribe_def exampleAttributes_def
  lbWeb_def lbApi_def lbGone_def goneDescribe_def attrsWeb_def attrsApi_def
  objGood_def objBad_def

lemmas run_defs =
  main_def cmdALB_def cmdIngest_def ingestALB_def newStater_def startTrace_def
  fixDataset_def scanStart_def scanStep_def attempting_def couldNotIngest_def
  cannotPublish_def fatal_def fatalErr_def

text \<open>
  Claim C3, as stated, fails: the only stop of an ingesting process is the interrupt, and
  the process then exits with status 1, not 0. In the run below the load balancer \<open>api\<close>
  was set up, one object was published, and the interrupt arrived.
\<close>

theorem interrupt_exit_status_counterexample:
  "last (fst (main ingestALB
                (exampleWorld exampleOptions [''ingest'', ''api''] [Download objGood, Interrupt]))) =
     Log FatalLevel [] ''Exiting due to interrupt.''
   \<and> exitCode (snd (main ingestALB
                (exampleWorld exampleOptions [''ingest'', ''api''] [Download objGood, Interrupt]))) =
     Some 1
   \<and> exitCode (snd (main ingestALB
                (exampleWorld exampleOptions [''ingest'', ''api''] [Download objGood, Interrupt]))) \<noteq>
     Some 0"
  by (simp add: run_defs example_defs)

text \<open>
  Claim C3, amended. When the interrupt arrives while the process waits in the publisher
  loop, the process logs the fatal entry of the interrupt and exits with status 1,
  and nothing that arrives later is handled. The process ends with status 0 exactly when
  it prints the version or completes \<^verbatim>\<open>ls\<close>, and every run with a fatal log entry exits
  with status 1.
\<close>

theorem interrupt_ends_process:
  "(snd (main ingestALB w) = Blocked \<longrightarrow>
      main ingestALB (w\<lparr>arrivals := arrivals w @ Interrupt # zs\<rparr>) =
        (fst (main ingestALB w) @ [Log FatalLevel [] ''Exiting due to interrupt.''], Exit 1)) \<and>
   (exitCode (snd (main ingestALB w)) = Some 0 \<longleftrightarrow>
      (\<exists>opt0 args. flagParse w = Inr (opt0, args) \<and> osStat w (StateDir opt0) \<noteq> StatNotExist \<and>
         (Version opt0 \<or>
          (\<exists>sub rest lbs. args = sub # rest \<and> (sub = ''ls'' \<or> sub = ''list'') \<and>
             newSession w = None \<and> describeLoadBalancers w [] = Inr lbs \<and>
             allNames lbs \<noteq> None)))) \<and>
   (\<forall>e \<in> set (fst (main ingestALB w)). isFatal e \<longrightarrow> snd (main ingestALB w) = Exit 1)"
proof (intro conjI)
  show "snd (main ingestALB w) = Blocked \<longrightarrow>
      main ingestALB (w\<lparr>arrivals := arrivals w @ Interrupt # zs\<rparr>) =
        (fst (main ingestALB w) @ [Log FatalLevel [] ''Exiting due to interrupt.''], Exit 1)"
    using main_interrupt by blast
  show "exitCode (snd (main ingestALB w)) = Some 0 \<longleftrightarrow>
      (\<exists>opt0 args. flagParse w = Inr (opt0, args) \<and> osStat w (StateDir opt0) \<noteq> StatNotExist \<and>
         (Version opt0 \<or>
          (\<exists>sub rest lbs. args = sub # rest \<and> (sub = ''ls'' \<or> sub = ''list'') \<and>
             newSession w = None \<and> describeLoadBalancers w [] = Inr lbs \<and>
             allNames lbs \<noteq> None)))"
    by (rule main_exit_zero)
  show "\<forall>e \<in> set (fst (main ingestALB w)). isFatal e \<longrightarrow> snd (main ingestALB w) = Exit 1"
    using main_fatalExits[of w] by (auto simp: fatalExits_def list_ex_iff)
qed

theorem interrupt_ends_process_witness:
  "snd (main ingestALB (exampleWorld exampleOptions [''ingest'', ''api''] [Download objGood])) =
     Blocked
   \<and> main ingestALB
       ((exampleWorld exampleOptions [''ingest'', ''api''] [Download objGood])
          \<lparr>arrivals := [Download objGood, Interrupt, Download objBad]\<rparr>) =
       (fst (main ingestALB (exampleWorld exampleOptions [''ingest'', ''api''] [Download objGood])) @
        [Log FatalLevel [] ''Exiting due to interrupt.''], Exit 1)
   \<and> isFatal (Log FatalLevel [] ''Exiting due to interrupt.'')
   \<and> exitCode (snd (main ingestALB (exampleWorld exampleOptions [''ls''] []))) = Some 0"
proof -
  let ?w = "exampleWorld exampleOptions [''ingest'', ''api''] [Download objGood]"
  have blocked: "snd (main ingestALB ?w) = Blocked"
    by (simp add: run_defs example_defs)
  have arr: "arrivals ?w @ Interrupt # [Download objBad] =
               [Download objGood, Interrupt, Download objBad]"
    by (simp add: exampleWorld_def)
  have ls: "exitCode (snd (main ingestALB (exampleWorld exampleOptions [''ls''] []))) = Some 0"
    using interrupt_ends_process[of "exampleWorld exampleOptions [''ls''] []" "[]"]
    by (simp add: example_defs)
  show ?thesis
    using blocked ls interrupt_ends_process[of ?w "[Download objBad]"] arr
    by simp
qed

section \<open>The loop over the load balancers\<close>













section \<open>The resource monitor\<close>

lemma publishAttempts_downloads:
  "publishAttempts (fst (publishLoop w n (map Download ds))) k =
     count_list (map ObjectKey ds) k"
proof -
  have "length (filter (\<lambda>d. ObjectKey d = k) ds) = count_list (map ObjectKey ds) k"
    by (induction ds) auto
  then show ?thesis by (simp add: publishAttempts_def publishLoop_publishes)
qed

lemma count_list_distinct:
  "distinct xs \<Longrightarrow> count_list xs x = (if x \<in> set xs then 1 else 0)"
  by (induction xs) auto

lemma monitorKeys_keys:
  "distinct ks \<Longrightarrow> \<forall>k \<in> set ks. \<not> Seen ledger k \<Longrightarrow>
     map ObjectKey (snd (monitorKeys v p r now ks ledger)) = filter (succeeds p) ks \<and>
     map fst (fst (monitorKeys v p r now ks ledger)) = map fst ledger @ filter (succeeds p) ks"
proof (induction ks arbitrary: ledger)
  case Nil
  then show ?case by simp
next
  case (Cons k ks)
  have fresh: "\<not> Seen ledger k" using Cons.prems by simp
  show ?case
  proof (cases "succeeds p k")
    case False
    then have "monitorKeys v p r now (k # ks) ledger = monitorKeys v p r now ks ledger"
      using fresh by (auto simp: succeeds_def MarkProcessed_def split: sum.splits option.splits)
    then show ?thesis using Cons False by simp
  next
    case True
    then obtain c where c: "fetch p k = Inr c" and wr: "ledgerWrite p k = None"
      by (auto simp: succeeds_def split: sum.splits)
    let ?l = "ledger @ [(k, now)]"
    have mark: "MarkProcessed v p now k ledger = Inr ?l"
      using fresh wr by (simp add: MarkProcessed_def)
    have "\<forall>k' \<in> set ks. \<not> Seen ?l k'"
      using Cons.prems by (auto simp: Seen_def)
    with Cons have IH:
      "map ObjectKey (snd (monitorKeys v p r now ks ?l)) = filter (succeeds p) ks"
      "map fst (fst (monitorKeys v p r now ks ?l)) = map fst ?l @ filter (succeeds p) ks"
      by auto
    show ?thesis using True IH c mark by (simp add: split_beta)
  qed
qed

lemma candidates_distinct: "distinct (candidates h now listing ledger)"
  by (simp add: candidates_def)

lemma candidates_set:
  "k \<in> set (candidates h now listing ledger) \<longleftrightarrow>
     (\<exists>ts. (k, ts) \<in> set listing \<and> inWindow h now ts) \<and> \<not> Seen ledger k"
  by (force simp: candidates_def)

lemma pollOnce_keys:
  "map ObjectKey (snd (pollOnce v p r h now listing ledger)) =
     filter (succeeds p) (candidates h now listing ledger)"
  "map fst (fst (pollOnce v p r h now listing ledger)) =
     map fst ledger @ filter (succeeds p) (candidates h now listing ledger)"
  using monitorKeys_keys[of "candidates h now listing ledger" ledger v p r now]
  by (simp_all add: pollOnce_def candidates_distinct candidates_set)

lemma pollTwice_keys:
  "map ObjectKey (snd (pollTwice v p1 p2 r h now listing ledger)) =
     filter (succeeds p1) (candidates h now listing ledger) @
     filter (succeeds p2)
       (candidates h now listing (fst (pollOnce v p1 r h now listing ledger)))"
  "map fst (fst (pollTwice v p1 p2 r h now listing ledger)) =
     map fst ledger @ map ObjectKey (snd (pollTwice v p1 p2 r h now listing ledger))"
  by (simp_all add: pollTwice_def split_beta pollOnce_keys)

lemma Seen_pollOnce:
  "Seen (fst (pollOnce v p r h now listing ledger)) k \<longleftrightarrow>
     Seen ledger k \<or> (k \<in> set (candidates h now listing ledger) \<and> succeeds p k)"
  by (auto simp: Seen_def pollOnce_keys)

lemma count_pollTwice:
  "count_list (map ObjectKey (snd (pollTwice v p1 p2 r h now listing ledger))) k =
     (if k \<in> set (candidates h now listing ledger) \<and> (succeeds p1 k \<or> succeeds p2 k)
      then 1 else 0)"
proof -
  let ?c1 = "candidates h now listing ledger"
  let ?l1 = "fst (pollOnce v p1 r h now listing ledger)"
  let ?c2 = "candidates h now listing ?l1"
  have d1: "distinct (filter (succeeds p1) ?c1)" and d2: "distinct (filter (succeeds p2) ?c2)"
    by (simp_all add: candidates_distinct)
  have in2: "k \<in> set ?c2 \<longleftrightarrow> k \<in> set ?c1 \<and> \<not> succeeds p1 k"
    by (auto simp: candidates_set Seen_pollOnce)
  have "count_list (filter (succeeds p1) ?c1) k = (if k \<in> set ?c1 \<and> succeeds p1 k then 1 else 0)"
    using d1 by (simp add: count_list_distinct)
  moreover have "count_list (filter (succeeds p2) ?c2) k =
      (if k \<in> set ?c1 \<and> \<not> succeeds p1 k \<and> succeeds p2 k then 1 else 0)"
    using d2 in2 by (simp add: count_list_distinct)
  ultimately show ?thesis by (auto simp: pollTwice_keys)
qed

text \<open>
  Claim C1, on the resource monitor and the ledger modelled from the specification. Let
  \<open>k\<close> be an object listed in the window and not yet in the ledger, whose download and mark
  succeed in one of two passes over the same window. Then the publisher loop, fed with
  what the two passes emit, calls the publisher on \<open>k\<close> exactly once, and \<open>k\<close> is in the
  ledger afterwards. The ledger grows by exactly the keys of the emitted objects, so an
  object is emitted only with its mark committed; the second pass emits no key that the
  first pass left in the ledger; and no key is published more than once.
\<close>

theorem rerun_publishes_once:
  assumes "(k, ts) \<in> set listing" and "inWindow h now ts" and "\<not> Seen ledger k"
    and "succeeds p1 k \<or> succeeds p2 k"
  shows "publishAttempts
           (fst (publishLoop w 0
                   (map Download (snd (pollTwice v p1 p2 r h now listing ledger))))) k = 1 \<and>
         Seen (fst (pollTwice v p1 p2 r h now listing ledger)) k \<and>
         map fst (fst (pollTwice v p1 p2 r h now listing ledger)) =
           map fst ledger @ map ObjectKey (snd (pollTwice v p1 p2 r h now listing ledger)) \<and>
         (\<forall>d \<in> set (snd (pollOnce v p2 r h now listing
                           (fst (pollOnce v p1 r h now listing ledger)))).
            \<not> Seen (fst (pollOnce v p1 r h now listing ledger)) (ObjectKey d)) \<and>
         (\<forall>k'. publishAttempts
                  (fst (publishLoop w 0
                          (map Download (snd (pollTwice v p1 p2 r h now listing ledger))))) k'
                \<le> 1)"
proof (intro conjI)
  let ?out = "snd (pollTwice v p1 p2 r h now listing ledger)"
  have cand: "k \<in> set (candidates h now listing ledger)"
    using assms(1-3) by (auto simp: candidates_set)
  then have one: "count_list (map ObjectKey ?out) k = 1"
    using assms(4) by (simp add: count_pollTwice)
  show "publishAttempts (fst (publishLoop w 0 (map Download ?out))) k = 1"
    using one by (simp add: publishAttempts_downloads)
  have "k \<in> set (map ObjectKey ?out)"
    using one count_list_0_iff[of "map ObjectKey ?out" k] by auto
  then show "Seen (fst (pollTwice v p1 p2 r h now listing ledger)) k"
    by (simp add: Seen_def pollTwice_keys(2))
  show "map fst (fst (pollTwice v p1 p2 r h now listing ledger)) =
          map fst ledger @ map ObjectKey ?out"
    by (rule pollTwice_keys(2))
  show "\<forall>d \<in> set (snd (pollOnce v p2 r h now listing
                           (fst (pollOnce v p1 r h now listing ledger)))).
            \<not> Seen (fst (pollOnce v p1 r h now listing ledger)) (ObjectKey d)"
  proof
    fix d
    let ?l1 = "fst (pollOnce v p1 r h now listing ledger)"
    assume "d \<in> set (snd (pollOnce v p2 r h now listing ?l1))"
    then have "ObjectKey d \<in> set (map ObjectKey (snd (pollOnce v p2 r h now listing ?l1)))"
      by simp
    then have "ObjectKey d \<in> set (candidates h now listing ?l1)"
      by (simp add: pollOnce_keys(1))
    then show "\<not> Seen ?l1 (ObjectKey d)" by (simp add: candidates_set)
  qed
  show "\<forall>k'. publishAttempts (fst (publishLoop w 0 (map Download ?out))) k' \<le> 1"
    by (simp add: publishAttempts_downloads count_pollTwice)
qed

theorem rerun_publishes_once_witness:
  "(''recent'', 100800) \<in> set exampleListing \<and> inWindow 24 exampleNow 100800
   \<and> \<not> Seen [] ''recent'' \<and> succeeds okPoll ''recent''
   \<and> publishAttempts
       (fst (publishLoop (exampleWorld exampleOptions [''ingest''] []) 0
               (map Download
                  (snd (pollTwice Distributed okPoll okPoll ''api'' 24 exampleNow
                          exampleListing []))))) ''recent'' = 1
   \<and> Seen (fst (pollTwice Distributed okPoll okPoll ''api'' 24 exampleNow exampleListing []))
        ''recent''"
proof -
  have h1: "(''recent'', 100800) \<in> set exampleListing" by (simp add: exampleListing_def)
  have h2: "inWindow 24 exampleNow 100800" by (simp add: inWindow_def exampleNow_def)
  have h3: "\<not> Seen [] ''recent''" by (simp add: Seen_def)
  have h4: "succeeds okPoll ''recent''" by (simp add: succeeds_def okPoll_def)
  have h5: "succeeds okPoll ''recent'' \<or> succeeds okPoll ''recent''" using h4 by simp
  show ?thesis
    using h1 h2 h3 h4
          rerun_publishes_once[OF h1 h2 h3 h5,
            of "exampleWorld exampleOptions [''ingest''] []" Distributed "''api''"]
    by simp
qed

end
